theory Spec2Isabelle
  imports Complex_Main "HOL-Library.Sublist" "HOL-Library.AList" "HOL-Library.Product_Lexorder"
begin

section \<open>Federated dynamic sparse training: masks, prune/grow, aggregation\<close>

text \<open>
  A shallow embedding of the sparse-mask lifecycle of the repository:
  \<^item> \<^verbatim>\<open>src/adapter/models.py\<close>: \<^verbatim>\<open>needs_mask\<close>, \<^verbatim>\<open>PrunableNet.init_param_sizes\<close>,
    \<^verbatim>\<open>_decay\<close>, \<^verbatim>\<open>layer_prune\<close>, \<^verbatim>\<open>layer_grow\<close>, \<^verbatim>\<open>reset_weights\<close>, \<^verbatim>\<open>sparsity\<close>;
  \<^item> \<^verbatim>\<open>src/dst_adapter.py\<close>: the cost accounting and the readjustment branch of
    \<^verbatim>\<open>Client.train\<close>, and the body of the server's round loop.

  Conventions. A tensor is the list of its elements in flattened order, and its shape is
  its number of elements: the tensors under one name all come from networks of one
  architecture, and a tensor of one element broadcasts against any other. A
  floating-point element is a value of \<open>fval\<close>: a finite number, or one of the three
  special values that division by zero produces. Finite arithmetic is exact (rounding and
  overflow of the machine formats are not part of the model, except where a function
  takes the rounding as a parameter); the special values follow IEEE 754. What the
  library leaves open, the choice of \<^verbatim>\<open>torch.topk\<close> among equal elements, is a parameter
  of the functions that call it. Every exception the Python raises is a value \<open>Inl e\<close>
  of a sum type.
\<close>

subsection \<open>Errors\<close>

datatype error =
    KeyError | ValueError | RuntimeError | IndexError | TypeError
  | ZeroDivisionError | AttributeError | NameError

text \<open>Sequencing of fallible steps: the first exception ends the computation.\<close>

definition bindE :: "error + 'a \<Rightarrow> ('a \<Rightarrow> error + 'b) \<Rightarrow> error + 'b" where
  "bindE m f = (case m of Inl e \<Rightarrow> Inl e | Inr x \<Rightarrow> f x)"

fun foldE :: "('a \<Rightarrow> 's \<Rightarrow> error + 's) \<Rightarrow> 'a list \<Rightarrow> 's \<Rightarrow> error + 's" where
  "foldE f [] s = Inr s"
| "foldE f (x # xs) s = (case f x s of Inl e \<Rightarrow> Inl e | Inr s' \<Rightarrow> foldE f xs s')"

fun mapE :: "('a \<Rightarrow> error + 'b) \<Rightarrow> 'a list \<Rightarrow> error + 'b list" where
  "mapE f [] = Inr []"
| "mapE f (x # xs) =
     (case f x of Inl e \<Rightarrow> Inl e
      | Inr y \<Rightarrow> (case mapE f xs of Inl e \<Rightarrow> Inl e | Inr ys \<Rightarrow> Inr (y # ys)))"

subsection \<open>Floating-point elements\<close>

datatype fval = Fin real | PInf | NInf | NaN

fun fadd :: "fval \<Rightarrow> fval \<Rightarrow> fval" where
  "fadd (Fin a) (Fin b) = Fin (a + b)"
| "fadd NaN _ = NaN"
| "fadd _ NaN = NaN"
| "fadd PInf NInf = NaN"
| "fadd NInf PInf = NaN"
| "fadd PInf _ = PInf"
| "fadd _ PInf = PInf"
| "fadd NInf _ = NInf"
| "fadd _ NInf = NInf"

fun fneg :: "fval \<Rightarrow> fval" where
  "fneg (Fin a) = Fin (- a)"
| "fneg PInf = NInf"
| "fneg NInf = PInf"
| "fneg NaN = NaN"

text \<open>The sign of a product with an infinity; a zero factor gives NaN.\<close>

definition inf_times :: "real \<Rightarrow> fval" where
  "inf_times a = (if a = 0 then NaN else if 0 < a then PInf else NInf)"

fun fmul :: "fval \<Rightarrow> fval \<Rightarrow> fval" where
  "fmul (Fin a) (Fin b) = Fin (a * b)"
| "fmul NaN _ = NaN"
| "fmul _ NaN = NaN"
| "fmul PInf (Fin b) = inf_times b"
| "fmul (Fin a) PInf = inf_times a"
| "fmul NInf (Fin b) = fneg (inf_times b)"
| "fmul (Fin a) NInf = fneg (inf_times a)"
| "fmul PInf PInf = PInf"
| "fmul NInf NInf = PInf"
| "fmul PInf NInf = NInf"
| "fmul NInf PInf = NInf"

text \<open>
  Division. A finite value divided by zero is NaN when it is zero itself and an infinity
  of its own sign otherwise. (The divisors of this program are sums of non-negative
  counts and the literal 0 of \<^verbatim>\<open>F.threshold_\<close>, so a negative zero never divides.)
\<close>

fun fdiv :: "fval \<Rightarrow> fval \<Rightarrow> fval" where
  "fdiv (Fin a) (Fin b) = (if b = 0 then inf_times a else Fin (a / b))"
| "fdiv NaN _ = NaN"
| "fdiv _ NaN = NaN"
| "fdiv (Fin a) PInf = Fin 0"
| "fdiv (Fin a) NInf = Fin 0"
| "fdiv PInf (Fin b) = (if 0 \<le> b then PInf else NInf)"
| "fdiv NInf (Fin b) = (if 0 \<le> b then NInf else PInf)"
| "fdiv PInf PInf = NaN"
| "fdiv PInf NInf = NaN"
| "fdiv NInf PInf = NaN"
| "fdiv NInf NInf = NaN"

text \<open>\<^verbatim>\<open>torch.nan_to_num(x, nan=0.0, posinf=0.0, neginf=0.0)\<close>, one element.\<close>

fun nan_to_num :: "fval \<Rightarrow> fval" where
  "nan_to_num (Fin a) = Fin a"
| "nan_to_num PInf = Fin 0"
| "nan_to_num NInf = Fin 0"
| "nan_to_num NaN = Fin 0"

text \<open>
  \<^verbatim>\<open>F.threshold_(x, threshold, value)\<close>, one element: the element is replaced by
  \<open>value\<close> when \<open>x \<le> threshold\<close> and kept otherwise (a NaN compares false and is kept).
\<close>

fun fle :: "fval \<Rightarrow> real \<Rightarrow> bool" where
  "fle (Fin a) t = (a \<le> t)"
| "fle NInf t = True"
| "fle PInf t = False"
| "fle NaN t = False"

definition threshold :: "real \<Rightarrow> fval \<Rightarrow> fval \<Rightarrow> fval" where
  "threshold t v x = (if fle x t then v else x)"

text \<open>A Boolean element as a number (type promotion of \<^verbatim>\<open>bool\<close> tensors).\<close>

definition of_mask :: "bool \<Rightarrow> fval" where
  "of_mask b = Fin (if b then 1 else 0)"

text \<open>A number as a Boolean (\<^verbatim>\<open>copy_\<close> into a \<^verbatim>\<open>bool\<close> buffer): everything but zero is true.\<close>

definition nonzero :: "fval \<Rightarrow> bool" where
  "nonzero x = (x \<noteq> Fin 0)"

subsection \<open>Configuration\<close>

datatype pruning_type = Hard | Soft

datatype decay_method = Constant | Cosine

text \<open>The options of \<^verbatim>\<open>argparse\<close> that the modelled code reads.\<close>

record args =
  sparsity :: real
  final_sparsity :: real
  readjustment_ratio :: real
  rate_decay_method :: decay_method
  rate_decay_end :: int
  rounds_between_readjustments :: int
  pruning_begin :: int
  pruning_interval :: int
  remember_old :: bool
  min_votes :: int
  fp16 :: bool
  prune_kind :: pruning_type

subsection \<open>Upload cost of the reported parameters\<close>

text \<open>
  \<^verbatim>\<open>Client.train\<close>, the last addition to \<^verbatim>\<open>ul_cost\<close>:
  \<^verbatim>\<open>
  if args.fp16:
      ul_cost += (1-self.net.sparsity()) * self.net.mask_size * 16 + (self.net.param_size - self.net.mask_size * 16)
  else:
      ul_cost += (1-self.net.sparsity()) * self.net.mask_size * 32 + (self.net.param_size - self.net.mask_size * 32)
  \<close>
  \<open>sp\<close> is the value \<^verbatim>\<open>self.net.sparsity()\<close> returned, \<open>mask_size\<close> and \<open>param_size\<close>
  are the two counters of \<^verbatim>\<open>init_param_sizes\<close>.
\<close>

definition ul_param_cost :: "args \<Rightarrow> real \<Rightarrow> int \<Rightarrow> int \<Rightarrow> real" where
  "ul_param_cost a sp mask_size param_size =
     (if fp16 a
      then (1 - sp) * real_of_int mask_size * 16 + real_of_int (param_size - mask_size * 16)
      else (1 - sp) * real_of_int mask_size * 32 + real_of_int (param_size - mask_size * 32))"

text \<open>
  The formula of the specification, written from its words: the masked term uses the
  transmission width, the unmasked term is \<open>param_size - mask_size * 32\<close> for both widths.
\<close>

definition spec_ul_param_cost :: "args \<Rightarrow> real \<Rightarrow> int \<Rightarrow> int \<Rightarrow> real" where
  "spec_ul_param_cost a sp mask_size param_size =
     (1 - sp) * real_of_int mask_size * (if fp16 a then 16 else 32)
       + real_of_int (param_size - mask_size * 32)"

subsection \<open>Schedules of the round loop\<close>

text \<open>
  \<^verbatim>\<open>PrunableNet._decay(t, alpha, t_end)\<close>. The division cannot fail: it is reached
  with \<open>t < t_end\<close> and the round index \<open>t\<close> is never negative.
\<close>

definition decay :: "int \<Rightarrow> real \<Rightarrow> int \<Rightarrow> real" where
  "decay t alpha t_end =
     (if t \<ge> t_end then 0
      else alpha / 2 * (1 + cos (real_of_int t * pi / real_of_int t_end)))"

text \<open>The round's readjustment ratio (the \<^verbatim>\<open>if args.rate_decay_method == 'cosine'\<close>).\<close>

definition round_readjustment_ratio :: "args \<Rightarrow> int \<Rightarrow> real" where
  "round_readjustment_ratio a server_round =
     (case rate_decay_method a of
        Cosine \<Rightarrow> readjustment_ratio a
                    * decay server_round (readjustment_ratio a) (rate_decay_end a)
      | Constant \<Rightarrow> readjustment_ratio a)"

text \<open>
  \<^verbatim>\<open>readjust = (server_round - 1) % args.rounds_between_readjustments == 0 and readjustment_ratio > 0.\<close>
  Python's \<^verbatim>\<open>%\<close> takes the sign of the divisor, as \<open>mod\<close> on \<open>int\<close> does, and raises on a
  zero divisor.
\<close>

definition readjust :: "args \<Rightarrow> int \<Rightarrow> error + bool" where
  "readjust a server_round =
     (if rounds_between_readjustments a = 0 then Inl ZeroDivisionError
      else Inr ((server_round - 1) mod rounds_between_readjustments a = 0
                \<and> round_readjustment_ratio a server_round > 0))"

text \<open>
  The sparsity desired at the end of the round, by linear interpolation:
  \<^verbatim>\<open>
  if server_round <= args.rate_decay_end:
      round_sparsity = args.sparsity * (args.rate_decay_end - server_round) / args.rate_decay_end
                       + args.final_sparsity * server_round / args.rate_decay_end
  else:
      round_sparsity = args.final_sparsity
  \<close>
\<close>

definition round_sparsity :: "args \<Rightarrow> int \<Rightarrow> error + real" where
  "round_sparsity a server_round =
     (if server_round \<le> rate_decay_end a
      then (if rate_decay_end a = 0 then Inl ZeroDivisionError
            else Inr (sparsity a * real_of_int (rate_decay_end a - server_round)
                        / real_of_int (rate_decay_end a)
                      + final_sparsity a * real_of_int server_round
                        / real_of_int (rate_decay_end a)))
      else Inr (final_sparsity a))"

text \<open>
  The readjustment branch of \<^verbatim>\<open>Client.train\<close>. Its condition:
  \<^verbatim>\<open>(self.curr_epoch - args.pruning_begin) % args.pruning_interval == 0 and readjust\<close>.
\<close>

definition readjust_epoch :: "args \<Rightarrow> int \<Rightarrow> bool \<Rightarrow> error + bool" where
  "readjust_epoch a curr_epoch rj =
     (if pruning_interval a = 0 then Inl ZeroDivisionError
      else Inr ((curr_epoch - pruning_begin a) mod pruning_interval a = 0 \<and> rj))"

text \<open>
  Its body computes \<^verbatim>\<open>prune_sparsity = sparsity + (1 - sparsity) * args.readjustment_ratio\<close>
  from the parameter \<^verbatim>\<open>sparsity\<close> of \<^verbatim>\<open>train\<close>, calls \<^verbatim>\<open>layer_prune(sparsity=prune_sparsity)\<close> and
  then \<^verbatim>\<open>layer_grow(sparsity=sparsity)\<close>. The pair below is (sparsity given to
  \<^verbatim>\<open>layer_prune\<close>, sparsity given to \<^verbatim>\<open>layer_grow\<close>).
\<close>

definition train_readjust_sparsities :: "args \<Rightarrow> real \<Rightarrow> real \<times> real" where
  "train_readjust_sparsities a sp = (sp + (1 - sp) * readjustment_ratio a, sp)"

text \<open>
  The round loop calls
  \<^verbatim>\<open>client.train(global_params=global_params, initial_global_params=initial_global_params)\<close>:
  no \<^verbatim>\<open>sparsity\<close> is passed, so \<^verbatim>\<open>train\<close> runs with its default \<^verbatim>\<open>sparsity=args.sparsity\<close>,
  whatever the round.
\<close>

definition round_train_sparsity :: "args \<Rightarrow> int \<Rightarrow> real" where
  "round_train_sparsity a server_round = sparsity a"

definition round_readjust_sparsities :: "args \<Rightarrow> int \<Rightarrow> real \<times> real" where
  "round_readjust_sparsities a server_round =
     train_readjust_sparsities a (round_train_sparsity a server_round)"

subsection \<open>Layers and networks\<close>

text \<open>
  A child module of a \<^verbatim>\<open>PrunableNet\<close> (an \<^verbatim>\<open>nn.Conv2d\<close> or \<^verbatim>\<open>nn.Linear\<close>) after
  \<^verbatim>\<open>initialize_mask\<close>: its parameters \<^verbatim>\<open>weight\<close> and \<^verbatim>\<open>bias\<close>, its only buffer
  \<^verbatim>\<open>weight_mask\<close>, and the gradient of the weight (\<^verbatim>\<open>None\<close> before a backward pass).
  The network is the list of its named children.
\<close>

record layer =
  lname :: string
  weight :: "fval list"
  bias :: "fval list"
  weight_mask :: "bool list"
  grad :: "fval list option"

type_synonym net = "layer list"

text \<open>\<^verbatim>\<open>needs_mask(name)\<close> is \<^verbatim>\<open>name.endswith('weight')\<close>.\<close>

definition endswith :: "string \<Rightarrow> string \<Rightarrow> bool" where
  "endswith name suf = suffix suf name"

definition needs_mask :: "string \<Rightarrow> bool" where
  "needs_mask name = endswith name ''weight''"

text \<open>
  \<^verbatim>\<open>init_param_sizes\<close>: the pair (\<^verbatim>\<open>mask_size\<close>, \<^verbatim>\<open>param_size\<close>). Every parameter counts
  32 bits per element, every weight one mask bit per element.
\<close>

definition init_param_sizes :: "net \<Rightarrow> int \<times> int" where
  "init_param_sizes n =
     (sum_list (map (\<lambda>l. int (length (weight l))) n),
      sum_list (map (\<lambda>l. int (length (weight l)) * 32 + int (length (bias l)) * 32) n))"

subsection \<open>Selection by magnitude\<close>

text \<open>\<^verbatim>\<open>torch.abs\<close>, one element.\<close>

fun fabs :: "fval \<Rightarrow> fval" where
  "fabs (Fin a) = Fin \<bar>a\<bar>"
| "fabs PInf = PInf"
| "fabs NInf = PInf"
| "fabs NaN = NaN"

text \<open>
  \<^verbatim>\<open>torch.topk(values, k, largest=...)\<close> returns \<open>k\<close> indices. It compares the elements
  in the order of \<open>topk_key\<close>: the infinities beyond every finite value and NaN above
  everything. Which of several equal elements it returns, and in which order it lists
  the indices, the library does not specify, and the result differs between its
  implementations. So the selection is the parameter \<open>topk\<close> of the functions below
  (\<open>topk largest values k\<close> is the index tensor), and \<open>is_topk\<close> is what the library
  guarantees of an index tensor: \<open>k\<close> distinct positions, and no position left out whose
  element is strictly better than a selected one. \<^verbatim>\<open>topk\<close> raises when \<open>k\<close> exceeds the
  number of elements, which the callers below check before they select.
\<close>

fun topk_key :: "fval \<Rightarrow> nat \<times> real" where
  "topk_key NInf = (0, 0)"
| "topk_key (Fin a) = (1, a)"
| "topk_key PInf = (2, 0)"
| "topk_key NaN = (3, 0)"

type_synonym topk = "bool \<Rightarrow> fval list \<Rightarrow> nat \<Rightarrow> nat list"

definition is_topk :: "bool \<Rightarrow> fval list \<Rightarrow> nat \<Rightarrow> nat list \<Rightarrow> bool" where
  "is_topk largest vs k idx =
     (length idx = k \<and> distinct idx \<and> list_all (\<lambda>i. i < length vs) idx
      \<and> list_all (\<lambda>i. list_all (\<lambda>j. j \<in> set idx
              \<or> (if largest then topk_key (vs ! j) \<le> topk_key (vs ! i)
                  else topk_key (vs ! i) \<le> topk_key (vs ! j)))
            [0..<length vs]) idx)"

text \<open>
  One selection that meets \<open>is_topk\<close>, to run the functions on examples: the first \<open>k\<close>
  positions of a stable sort by \<open>topk_key\<close>, or of its reverse for the largest.
\<close>

definition topk_stable :: topk where
  "topk_stable largest vs k =
     take k ((if largest then rev else (\<lambda>xs. xs))
               (sort_key (\<lambda>i. topk_key (vs ! i)) [0..<length vs]))"

text \<open>
  \<^verbatim>\<open>t.view(t.numel())[indices] = v\<close>: the assignment through an index tensor, which
  raises when an index is out of range.
\<close>

definition assign_at :: "nat list \<Rightarrow> 'a \<Rightarrow> 'a list \<Rightarrow> error + 'a list" where
  "assign_at idx v xs =
     (if list_all (\<lambda>i. i < length xs) idx
      then Inr (fold (\<lambda>i ys. ys[i := v]) idx xs)
      else Inl IndexError)"

subsection \<open>Prune and grow\<close>

text \<open>
  An entry of the dictionary that \<^verbatim>\<open>_weights_by_layer\<close> returns: a \<^verbatim>\<open>numpy.float64\<close>
  after \<^verbatim>\<open>np.floor\<close>, that is a whole number, or NaN or an infinity (the renormalisation
  divides by a sum that can be zero). The floating-point computation of the dictionary
  is not modelled: the functions below take it as the parameter \<open>weights_by_layer\<close>.
  \<^verbatim>\<open>int(...)\<close> of a value that is not finite raises (\<^verbatim>\<open>ValueError\<close> for NaN,
  \<^verbatim>\<open>OverflowError\<close> for an infinity; the model has one error for both).
\<close>

datatype np_float = Whole int | NonFinite

text \<open>
  The body of the loop of \<^verbatim>\<open>layer_prune\<close> for one child:
  \<^verbatim>\<open>
  n_total = 0
  for bname, buf in layer.named_buffers():
      n_total += buf.numel()
  n_prune = int(n_total - weights_by_layer[name])
  if n_prune >= n_total or n_prune < 0:
      continue
  for pname, param in layer.named_parameters():
      if not needs_mask(pname):
          continue
      _, prune_indices = torch.topk(torch.abs(param.data.flatten()), n_prune, largest=False)
      if pruning_type == 'hard':
          param.data.view(param.data.numel())[prune_indices] = 0
      for bname, buf in layer.named_buffers():
          if bname == pname + '_mask':
              buf.view(buf.numel())[prune_indices] = 0
  \<close>
  The only buffer is \<^verbatim>\<open>weight_mask\<close>; of the two parameters only \<^verbatim>\<open>weight\<close> needs a mask.
\<close>

definition prune_layer ::
  "topk \<Rightarrow> np_float \<Rightarrow> pruning_type \<Rightarrow> layer \<Rightarrow> error + layer" where
  "prune_layer topk w pt l =
     (let n_total = int (length (weight_mask l)) in
      case w of
        NonFinite \<Rightarrow> Inl ValueError
      | Whole t \<Rightarrow>
          let n_prune = n_total - t in
          if n_prune \<ge> n_total \<or> n_prune < 0 then Inr l
          else if nat n_prune > length (weight l) then Inl RuntimeError
          else
            let prune_indices = topk False (map fabs (weight l)) (nat n_prune) in
            bindE (if pt = Hard then assign_at prune_indices (Fin 0) (weight l)
                   else Inr (weight l)) (\<lambda>w'.
            bindE (assign_at prune_indices False (weight_mask l)) (\<lambda>m'.
            Inr (l\<lparr>weight := w', weight_mask := m'\<rparr>))))"

definition layer_prune ::
  "topk \<Rightarrow> (string \<Rightarrow> np_float) \<Rightarrow> pruning_type \<Rightarrow> net \<Rightarrow> error + net" where
  "layer_prune topk weights_by_layer pt n =
     mapE (\<lambda>l. prune_layer topk (weights_by_layer (lname l)) pt l) n"

text \<open>
  The body of the loop of \<^verbatim>\<open>layer_grow\<close> for one child:
  \<^verbatim>\<open>
  n_nonzero = 0
  for bname, buf in layer.named_buffers():
      n_nonzero += buf.count_nonzero().item()
  n_grow = int(weights_by_layer[name] - n_nonzero)
  if n_grow < 0:
      continue
  for pname, param in layer.named_parameters():
      if not needs_mask(pname):
          continue
      _, grow_indices = torch.topk(torch.abs(param.grad.flatten()), n_grow, largest=True)
      param.data.view(param.data.numel())[grow_indices] = 0
      for bname, buf in layer.named_buffers():
          if bname == pname + '_mask':
              buf.view(buf.numel())[grow_indices] = 1
  \<close>
  The selection ranges over all positions of the gradient.
\<close>

definition grow_layer :: "topk \<Rightarrow> np_float \<Rightarrow> layer \<Rightarrow> error + layer" where
  "grow_layer topk w l =
     (let n_nonzero = int (length (filter (\<lambda>b. b) (weight_mask l))) in
      case w of
        NonFinite \<Rightarrow> Inl ValueError
      | Whole t \<Rightarrow>
          let n_grow = t - n_nonzero in
          if n_grow < 0 then Inr l
          else (case grad l of
              None \<Rightarrow> Inl AttributeError
            | Some g \<Rightarrow>
                if nat n_grow > length g then Inl RuntimeError
                else
                  let grow_indices = topk True (map fabs g) (nat n_grow) in
                  bindE (assign_at grow_indices (Fin 0) (weight l)) (\<lambda>w'.
                  bindE (assign_at grow_indices True (weight_mask l)) (\<lambda>m'.
                  Inr (l\<lparr>weight := w', weight_mask := m'\<rparr>)))))"

definition layer_grow :: "topk \<Rightarrow> (string \<Rightarrow> np_float) \<Rightarrow> net \<Rightarrow> error + net" where
  "layer_grow topk weights_by_layer n =
     mapE (\<lambda>l. grow_layer topk (weights_by_layer (lname l)) l) n"

subsection \<open>State dictionaries\<close>

text \<open>
  A \<^verbatim>\<open>state_dict\<close> is an ordered dictionary from qualified names to tensors; a tensor
  is a list of floating-point elements or (a mask buffer) of Booleans. The two
  coercions are the type promotions of PyTorch: a Boolean counts as 0 or 1, and a
  number copied into a Boolean buffer is true unless it is zero.
\<close>

datatype tensor = FloatT "fval list" | BoolT "bool list"

type_synonym state_dict = "(string \<times> tensor) list"

fun numel :: "tensor \<Rightarrow> nat" where
  "numel (FloatT xs) = length xs"
| "numel (BoolT bs) = length bs"

fun floats :: "tensor \<Rightarrow> fval list" where
  "floats (FloatT xs) = xs"
| "floats (BoolT bs) = map of_mask bs"

fun bools :: "tensor \<Rightarrow> bool list" where
  "bools (BoolT bs) = bs"
| "bools (FloatT xs) = map nonzero xs"

text \<open>
  \<^verbatim>\<open>state_dict()\<close> of a network lists, child by child, the parameters and then the
  buffer; \<^verbatim>\<open>named_buffers()\<close> lists the masks.
\<close>

definition layer_items :: "layer \<Rightarrow> state_dict" where
  "layer_items l =
     [(lname l @ ''.weight'', FloatT (weight l)),
      (lname l @ ''.bias'', FloatT (bias l)),
      (lname l @ ''.weight_mask'', BoolT (weight_mask l))]"

definition state_dict :: "net \<Rightarrow> state_dict" where
  "state_dict n = concat (map layer_items n)"

definition named_buffers :: "net \<Rightarrow> state_dict" where
  "named_buffers n = map (\<lambda>l. (lname l @ ''.weight_mask'', BoolT (weight_mask l))) n"

text \<open>
  \<^verbatim>\<open>load_state_dict(sd)\<close> (strict): a missing key, an unexpected key or a size mismatch
  raises \<^verbatim>\<open>RuntimeError\<close>; otherwise every tensor of the network takes the values of
  its entry, converted to its own element type. Gradients are not touched.
\<close>

definition load_layer :: "state_dict \<Rightarrow> layer \<Rightarrow> error + layer" where
  "load_layer sd l =
     (case map_of sd (lname l @ ''.weight'') of
        None \<Rightarrow> Inl RuntimeError
      | Some w \<Rightarrow>
     (case map_of sd (lname l @ ''.bias'') of
        None \<Rightarrow> Inl RuntimeError
      | Some b \<Rightarrow>
     (case map_of sd (lname l @ ''.weight_mask'') of
        None \<Rightarrow> Inl RuntimeError
      | Some m \<Rightarrow>
          if numel w = length (weight l) \<and> numel b = length (bias l)
             \<and> numel m = length (weight_mask l)
          then Inr (l\<lparr>weight := floats w, bias := floats b, weight_mask := bools m\<rparr>)
          else Inl RuntimeError)))"

definition load_state_dict :: "state_dict \<Rightarrow> net \<Rightarrow> error + net" where
  "load_state_dict sd n =
     (if list_all (\<lambda>k. k \<in> set (map fst (state_dict n))) (map fst sd)
      then mapE (load_layer sd) n
      else Inl RuntimeError)"

text \<open>
  \<^verbatim>\<open>PrunableNet.sparsity(buffers)\<close>:
  \<^verbatim>\<open>
  n_ones = 0
  mask_size = 0
  for name, buf in buffers:
      if name.endswith('mask'):
          n_ones += torch.sum(buf)
          mask_size += buf.nelement()
  return 1 - (n_ones / mask_size).item()
  \<close>
  Without any mask entry both counters are Python integers and the division raises;
  with mask entries of total size 0 the tensor division gives NaN. With a mask entry
  \<^verbatim>\<open>n_ones\<close> is a tensor and the quotient a \<^verbatim>\<open>float32\<close> tensor: both operands are
  converted to \<^verbatim>\<open>float32\<close> and the quotient is rounded to it. That rounding is the
  parameter \<open>f32\<close>. \<^verbatim>\<open>.item()\<close> converts exactly, and the subtraction from 1 is taken
  exact.
\<close>

definition tsum :: "tensor \<Rightarrow> fval" where
  "tsum t = foldl fadd (Fin 0) (floats t)"

fun rounded :: "(real \<Rightarrow> real) \<Rightarrow> fval \<Rightarrow> fval" where
  "rounded f32 (Fin r) = Fin (f32 r)"
| "rounded f32 PInf = PInf"
| "rounded f32 NInf = NInf"
| "rounded f32 NaN = NaN"

definition sparsity_of :: "(real \<Rightarrow> real) \<Rightarrow> state_dict \<Rightarrow> error + fval" where
  "sparsity_of f32 buffers =
     (let masks = filter (\<lambda>e. endswith (fst e) ''mask'') buffers in
      if masks = [] then Inl ZeroDivisionError
      else
        let n_ones = foldl fadd (Fin 0) (map (\<lambda>e. tsum (snd e)) masks);
            mask_size = sum_list (map (\<lambda>e. numel (snd e)) masks)
        in Inr (fadd (Fin 1)
                  (fneg (rounded f32 (fdiv (rounded f32 n_ones)
                                           (rounded f32 (Fin (real mask_size))))))))"

definition model_sparsity :: "(real \<Rightarrow> real) \<Rightarrow> net \<Rightarrow> error + fval" where
  "model_sparsity f32 n = sparsity_of f32 (named_buffers n)"

text \<open>The comparison \<^verbatim>\<open>global_model.sparsity() < round_sparsity\<close>.\<close>

fun flt :: "fval \<Rightarrow> real \<Rightarrow> bool" where
  "flt (Fin a) t = (a < t)"
| "flt NInf t = True"
| "flt PInf t = False"
| "flt NaN t = False"

subsection \<open>Server aggregation\<close>

text \<open>
  The three accumulators of the round loop, zero-initialised over the names of the
  broadcast state that are not masks:
  \<^verbatim>\<open>
  for name, param in global_params.items():
      if name.endswith('_mask'):
          continue
      aggregated_params[name] = torch.zeros_like(param, dtype=torch.float, device='cpu')
      aggregated_params_for_mask[name] = torch.zeros_like(param, dtype=torch.float, device='cpu')
      if needs_mask(name):
          aggregated_masks[name] = torch.zeros_like(param, device='cpu')
  \<close>
  Storing under a key keeps the position of a key that is already there and appends a
  new one, as \<open>AList.update\<close> does.
\<close>

record accs =
  aggregated_params :: state_dict
  aggregated_params_for_mask :: state_dict
  aggregated_masks :: state_dict

definition zeros_float :: "tensor \<Rightarrow> tensor" where
  "zeros_float p = FloatT (replicate (numel p) (Fin 0))"

fun zeros_like :: "tensor \<Rightarrow> tensor" where
  "zeros_like (FloatT xs) = FloatT (replicate (length xs) (Fin 0))"
| "zeros_like (BoolT bs) = BoolT (replicate (length bs) False)"

definition init_step :: "string \<times> tensor \<Rightarrow> accs \<Rightarrow> accs" where
  "init_step e A =
     (case e of (name, param) \<Rightarrow>
        if endswith name ''_mask'' then A
        else \<lparr>aggregated_params = AList.update name (zeros_float param) (aggregated_params A),
              aggregated_params_for_mask =
                AList.update name (zeros_float param) (aggregated_params_for_mask A),
              aggregated_masks =
                (if needs_mask name
                 then AList.update name (zeros_like param) (aggregated_masks A)
                 else aggregated_masks A)\<rparr>)"

definition init_accumulators :: "state_dict \<Rightarrow> accs" where
  "init_accumulators global_params =
     fold init_step global_params
       \<lparr>aggregated_params = [], aggregated_params_for_mask = [], aggregated_masks = []\<rparr>"

text \<open>
  Decoding a client's reported state (\<^verbatim>\<open>name[:-5]\<close> strips a suffix of five
  characters):
  \<^verbatim>\<open>
  for name, cl_param in cl_params.items():
      if name.endswith('_orig'):
          name = name[:-5]
      elif name.endswith('_mask'):
          name = name[:-5]
          cl_mask_params[name] = cl_param.to(device='cpu', copy=True)
          continue
      cl_weight_params[name] = cl_param.to(device='cpu', copy=True)
      if args.fp16:
          cl_weight_params[name] = cl_weight_params[name].to(torch.bfloat16).to(torch.float)
  \<close>
  The rounding to \<^verbatim>\<open>bfloat16\<close> is the parameter \<open>bf16\<close>.
\<close>

definition strip5 :: "string \<Rightarrow> string" where
  "strip5 name = take (length name - 5) name"

definition received :: "(fval \<Rightarrow> fval) \<Rightarrow> args \<Rightarrow> tensor \<Rightarrow> tensor" where
  "received bf16 a cl_param = (if fp16 a then FloatT (map bf16 (floats cl_param)) else cl_param)"

definition decode_step ::
  "(fval \<Rightarrow> fval) \<Rightarrow> args \<Rightarrow> string \<times> tensor \<Rightarrow> state_dict \<times> state_dict
     \<Rightarrow> state_dict \<times> state_dict" where
  "decode_step bf16 a e D =
     (case e of (name, cl_param) \<Rightarrow>
      case D of (cl_weight_params, cl_mask_params) \<Rightarrow>
        if endswith name ''_orig''
        then (AList.update (strip5 name) (received bf16 a cl_param) cl_weight_params,
              cl_mask_params)
        else if endswith name ''_mask''
        then (cl_weight_params, AList.update (strip5 name) cl_param cl_mask_params)
        else (AList.update name (received bf16 a cl_param) cl_weight_params, cl_mask_params))"

definition decode_client ::
  "(fval \<Rightarrow> fval) \<Rightarrow> args \<Rightarrow> state_dict \<Rightarrow> state_dict \<times> state_dict" where
  "decode_client bf16 a cl_params = fold (decode_step bf16 a) cl_params ([], [])"

text \<open>
  Element-wise arithmetic. The operands of \<^verbatim>\<open>x * y\<close> have one size, or one of them has
  one element and is broadcast; any other pair raises. The in-place operations
  \<^verbatim>\<open>x.add_(y)\<close> and \<^verbatim>\<open>x /= y\<close> keep the shape of \<open>x\<close>: \<open>y\<close> has the size of \<open>x\<close> or one
  element. In \<^verbatim>\<open>d[name].add_(arg)\<close> the dictionary lookup comes first, then the argument
  is evaluated, then the shapes are compared.
\<close>

definition broadcast ::
  "(fval \<Rightarrow> fval \<Rightarrow> fval) \<Rightarrow> fval list \<Rightarrow> fval list \<Rightarrow> error + fval list" where
  "broadcast f xs ys =
     (if length xs = length ys then Inr (map2 f xs ys)
      else if length ys = 1 then Inr (map (\<lambda>x. f x (hd ys)) xs)
      else if length xs = 1 then Inr (map (f (hd xs)) ys)
      else Inl RuntimeError)"

definition inplace ::
  "(fval \<Rightarrow> fval \<Rightarrow> fval) \<Rightarrow> fval list \<Rightarrow> fval list \<Rightarrow> error + fval list" where
  "inplace f xs ys =
     (if length xs = length ys then Inr (map2 f xs ys)
      else if length ys = 1 then Inr (map (\<lambda>x. f x (hd ys)) xs)
      else Inl RuntimeError)"

definition scaled :: "nat \<Rightarrow> fval list \<Rightarrow> fval list" where
  "scaled train_size xs = map (fmul (Fin (real train_size))) xs"

definition tmul :: "fval list \<Rightarrow> fval list \<Rightarrow> error + fval list" where
  "tmul xs ys = broadcast fmul xs ys"

definition tdiv :: "fval list \<Rightarrow> fval list \<Rightarrow> error + fval list" where
  "tdiv xs ys = inplace fdiv xs ys"

definition add_to :: "state_dict \<Rightarrow> string \<Rightarrow> error + fval list \<Rightarrow> error + state_dict" where
  "add_to d name arg =
     (case map_of d name of
        None \<Rightarrow> Inl KeyError
      | Some t \<Rightarrow>
          bindE arg (\<lambda>v.
          bindE (inplace fadd (floats t) v) (\<lambda>r.
          Inr (AList.update name (FloatT r) d))))"

text \<open>\<^verbatim>\<open>sv_mask[cl_mask] = 0\<close>: the index must be a Boolean tensor of the same shape.\<close>

fun masked_zero :: "tensor \<Rightarrow> tensor \<Rightarrow> error + tensor" where
  "masked_zero (BoolT s) (BoolT c) =
     (if length s = length c then Inr (BoolT (map2 (\<lambda>x y. x \<and> \<not> y) s c)) else Inl IndexError)"
| "masked_zero (FloatT s) (BoolT c) =
     (if length s = length c then Inr (FloatT (map2 (\<lambda>x y. if y then Fin 0 else x) s c))
      else Inl IndexError)"
| "masked_zero s (FloatT c) = Inl IndexError"

text \<open>
  Adding one client to the aggregate:
  \<^verbatim>\<open>
  for name, cl_param in cl_weight_params.items():
      if name in cl_mask_params:
          cl_mask = cl_mask_params[name]
          sv_mask = global_params[name + '_mask'].to('cpu', copy=True)
          aggregated_params[name].add_(client.train_size() * cl_param * cl_mask)
          aggregated_params_for_mask[name].add_(client.train_size() * cl_param * cl_mask)
          aggregated_masks[name].add_(client.train_size() * cl_mask)
          if args.remember_old:
              sv_mask[cl_mask] = 0
              sv_param = global_params[name].to('cpu', copy=True)
              aggregated_params_for_mask[name].add_(client.train_size() * sv_param * sv_mask)
              aggregated_masks[name].add_(client.train_size() * sv_mask)
      else:
          aggregated_params[name].add_(client.train_size() * cl_param)
  \<close>
  A sampled client is the pair of its \<^verbatim>\<open>train_size()\<close> and the state it reports.
  \<^verbatim>\<open>train_size()\<close> is \<^verbatim>\<open>sum(len(x) for x in self.train_data)\<close>; the batches are the pairs
  that \<^verbatim>\<open>train\<close> unpacks as \<^verbatim>\<open>inputs, labels\<close>, so it is twice the number of batches.
\<close>

definition client_step ::
  "args \<Rightarrow> state_dict \<Rightarrow> nat \<Rightarrow> state_dict \<Rightarrow> string \<times> tensor \<Rightarrow> accs \<Rightarrow> error + accs" where
  "client_step a global_params train_size cl_mask_params e A =
     (case e of (name, cl_param) \<Rightarrow>
      case map_of cl_mask_params name of
        Some cl_mask \<Rightarrow>
          (case map_of global_params (name @ ''_mask'') of
             None \<Rightarrow> Inl KeyError
           | Some sv_mask \<Rightarrow>
               bindE (add_to (aggregated_params A) name
                        (tmul (scaled train_size (floats cl_param)) (floats cl_mask))) (\<lambda>ap.
               bindE (add_to (aggregated_params_for_mask A) name
                        (tmul (scaled train_size (floats cl_param)) (floats cl_mask))) (\<lambda>apfm.
               bindE (add_to (aggregated_masks A) name
                        (Inr (scaled train_size (floats cl_mask)))) (\<lambda>am.
               if remember_old a
               then
                 bindE (masked_zero sv_mask cl_mask) (\<lambda>sv_mask'.
                 case map_of global_params name of
                   None \<Rightarrow> Inl KeyError
                 | Some sv_param \<Rightarrow>
                     bindE (add_to apfm name
                              (tmul (scaled train_size (floats sv_param)) (floats sv_mask')))
                       (\<lambda>apfm'.
                     bindE (add_to am name (Inr (scaled train_size (floats sv_mask')))) (\<lambda>am'.
                     Inr \<lparr>aggregated_params = ap, aggregated_params_for_mask = apfm',
                          aggregated_masks = am'\<rparr>)))
               else Inr \<lparr>aggregated_params = ap, aggregated_params_for_mask = apfm,
                         aggregated_masks = am\<rparr>))))
      | None \<Rightarrow>
          bindE (add_to (aggregated_params A) name (Inr (scaled train_size (floats cl_param))))
            (\<lambda>ap. Inr (A\<lparr>aggregated_params := ap\<rparr>)))"

definition client_accumulate ::
  "(fval \<Rightarrow> fval) \<Rightarrow> args \<Rightarrow> state_dict \<Rightarrow> nat \<times> state_dict \<Rightarrow> accs \<Rightarrow> error + accs" where
  "client_accumulate bf16 a global_params c A =
     (case c of (train_size, cl_params) \<Rightarrow>
      case decode_client bf16 a cl_params of (cl_weight_params, cl_mask_params) \<Rightarrow>
        foldE (client_step a global_params train_size cl_mask_params) cl_weight_params A)"

definition accumulate ::
  "(fval \<Rightarrow> fval) \<Rightarrow> args \<Rightarrow> state_dict \<Rightarrow> (nat \<times> state_dict) list \<Rightarrow> error + accs" where
  "accumulate bf16 a global_params clients =
     foldE (client_accumulate bf16 a global_params) clients (init_accumulators global_params)"

text \<open>
  The reduction of one masked name:
  \<^verbatim>\<open>
  aggregated_masks[name] = F.threshold_(aggregated_masks[name], args.min_votes, 0)
  aggregated_params[name] /= aggregated_masks[name]
  aggregated_params_for_mask[name] /= aggregated_masks[name]
  aggregated_masks[name] /= aggregated_masks[name]
  aggregated_params[name] = torch.nan_to_num(aggregated_params[name], nan=0.0, posinf=0.0, neginf=0.0)
  aggregated_params_for_mask[name] = torch.nan_to_num(aggregated_params[name], nan=0.0, posinf=0.0, neginf=0.0)
  aggregated_masks[name] = torch.nan_to_num(aggregated_masks[name], nan=0.0, posinf=0.0, neginf=0.0)
  \<close>
  The sixth line reads \<^verbatim>\<open>aggregated_params[name]\<close>, the result of the fifth, and the
  model does the same: \<open>pfm2\<close> is computed from \<open>p2\<close>, and the quotient \<open>pfm1\<close> is
  dropped. The result is the triple (\<^verbatim>\<open>aggregated_params[name]\<close>,
  \<^verbatim>\<open>aggregated_params_for_mask[name]\<close>, \<^verbatim>\<open>aggregated_masks[name]\<close>).
\<close>

definition reduce_masked ::
  "args \<Rightarrow> fval list \<Rightarrow> fval list \<Rightarrow> fval list
     \<Rightarrow> error + (fval list \<times> fval list \<times> fval list)" where
  "reduce_masked a p pfm m =
     (let m1 = map (threshold (real_of_int (min_votes a)) (Fin 0)) m in
      bindE (tdiv p m1) (\<lambda>p1.
      bindE (tdiv pfm m1) (\<lambda>pfm1.
      let m2 = map2 fdiv m1 m1;
          p2 = map nan_to_num p1;
          pfm2 = map nan_to_num p2;
          m3 = map nan_to_num m2
      in Inr (p2, pfm2, m3))))"

text \<open>
  The reduction loop \<^verbatim>\<open>for name, param in aggregated_params.items()\<close>: a name without
  an entry in \<^verbatim>\<open>aggregated_masks\<close> is divided by the sum of the sampled train sizes.
\<close>

definition reduce_step :: "args \<Rightarrow> nat \<Rightarrow> string \<Rightarrow> accs \<Rightarrow> error + accs" where
  "reduce_step a total_size name A =
     (case map_of (aggregated_params A) name of
        None \<Rightarrow> Inl KeyError
      | Some p \<Rightarrow>
     (case map_of (aggregated_masks A) name of
        None \<Rightarrow>
          Inr (A\<lparr>aggregated_params :=
                   AList.update name (FloatT (map (\<lambda>x. fdiv x (Fin (real total_size))) (floats p)))
                     (aggregated_params A)\<rparr>)
      | Some m \<Rightarrow>
     (case map_of (aggregated_params_for_mask A) name of
        None \<Rightarrow> Inl KeyError
      | Some pfm \<Rightarrow>
          bindE (reduce_masked a (floats p) (floats pfm) (floats m)) (\<lambda>r.
          case r of (p2, pfm2, m3) \<Rightarrow>
            Inr \<lparr>aggregated_params = AList.update name (FloatT p2) (aggregated_params A),
                 aggregated_params_for_mask =
                   AList.update name (FloatT pfm2) (aggregated_params_for_mask A),
                 aggregated_masks = AList.update name (FloatT m3) (aggregated_masks A)\<rparr>))))"

definition reduce :: "args \<Rightarrow> nat \<Rightarrow> accs \<Rightarrow> error + accs" where
  "reduce a total_size A = foldE (reduce_step a total_size) (map fst (aggregated_params A)) A"

text \<open>
  \<^verbatim>\<open>
  for name, mask in aggregated_masks.items():
      aggregated_params[name + '_mask'] = mask
      aggregated_params_for_mask[name + '_mask'] = mask
  \<close>
\<close>

definition masks_step :: "string \<times> tensor \<Rightarrow> accs \<Rightarrow> accs" where
  "masks_step e A =
     (case e of (name, amask) \<Rightarrow>
        A\<lparr>aggregated_params := AList.update (name @ ''_mask'') amask (aggregated_params A),
          aggregated_params_for_mask :=
            AList.update (name @ ''_mask'') amask (aggregated_params_for_mask A)\<rparr>)"

definition masks_as_params :: "accs \<Rightarrow> accs" where
  "masks_as_params A = fold masks_step (aggregated_masks A) A"

definition aggregate ::
  "(fval \<Rightarrow> fval) \<Rightarrow> args \<Rightarrow> state_dict \<Rightarrow> (nat \<times> state_dict) list \<Rightarrow> error + accs" where
  "aggregate bf16 a global_params clients =
     bindE (accumulate bf16 a global_params clients) (\<lambda>A1.
     bindE (reduce a (sum_list (map fst clients)) A1) (\<lambda>A2.
     Inr (masks_as_params A2)))"

text \<open>
  \<^verbatim>\<open>t[~m] = 0\<close>, and the last loop of the round:
  \<^verbatim>\<open>
  global_params = global_model.state_dict()
  for name, mask in aggregated_masks.items():
      new_mask = global_params[name + '_mask']
      aggregated_params[name + '_mask'] = new_mask
      aggregated_params[name][~new_mask] = 0
  \<close>
\<close>

fun zero_outside :: "bool list \<Rightarrow> tensor \<Rightarrow> tensor" where
  "zero_outside m (FloatT xs) = FloatT (map2 (\<lambda>b x. if b then x else Fin 0) m xs)"
| "zero_outside m (BoolT bs) = BoolT (map2 (\<lambda>b x. b \<and> x) m bs)"

definition enforce_step :: "state_dict \<Rightarrow> string \<Rightarrow> state_dict \<Rightarrow> error + state_dict" where
  "enforce_step global_params name ap =
     (case map_of global_params (name @ ''_mask'') of
        None \<Rightarrow> Inl KeyError
      | Some new_mask \<Rightarrow>
          let ap1 = AList.update (name @ ''_mask'') new_mask ap in
          (case map_of ap1 name of
             None \<Rightarrow> Inl KeyError
           | Some p \<Rightarrow>
               (case new_mask of
                  FloatT xs \<Rightarrow> Inl TypeError
                | BoolT m \<Rightarrow>
                    if length m = numel p
                    then Inr (AList.update name (zero_outside m p) ap1)
                    else Inl IndexError)))"

text \<open>
  The round after the clients have trained:
  \<^verbatim>\<open>
  global_model.load_state_dict(aggregated_params_for_mask)
  if global_model.sparsity() < round_sparsity:
      global_model.layer_prune(sparsity=round_sparsity, sparsity_distribution=args.sparsity_distribution, pruning_type=args.pruning_type)
  ... (the loop above) ...
  global_model.load_state_dict(aggregated_params)
  \<close>
  \<open>round_sp\<close> is the value the loop over the sampled clients assigns to
  \<^verbatim>\<open>round_sparsity\<close> and \<open>weights_by_layer\<close> the dictionary \<^verbatim>\<open>_weights_by_layer\<close> computes
  for it. The assignment is in the body of that loop: when no client is sampled the
  name is unbound and the comparison raises \<^verbatim>\<open>NameError\<close>, after its left operand has
  been evaluated. (Every round samples \<^verbatim>\<open>args.clients\<close> clients, so a round without
  clients has no earlier round that bound the name.) The result is the published global
  model.
\<close>

definition aggregation_round ::
  "topk \<Rightarrow> (real \<Rightarrow> real) \<Rightarrow> (fval \<Rightarrow> fval) \<Rightarrow> args \<Rightarrow> real \<Rightarrow> (string \<Rightarrow> np_float) \<Rightarrow> net
     \<Rightarrow> (nat \<times> state_dict) list \<Rightarrow> error + net" where
  "aggregation_round topk f32 bf16 a round_sp weights_by_layer global_model clients =
     bindE (aggregate bf16 a (state_dict global_model) clients) (\<lambda>A.
     bindE (load_state_dict (aggregated_params_for_mask A) global_model) (\<lambda>g5.
     bindE (model_sparsity f32 g5) (\<lambda>sp.
     bindE (if clients = [] then Inl NameError else Inr round_sp) (\<lambda>rs.
     bindE (if flt sp rs then layer_prune topk weights_by_layer (prune_kind a) g5
            else Inr g5) (\<lambda>g6.
     bindE (foldE (enforce_step (state_dict g6)) (map fst (aggregated_masks A))
              (aggregated_params A)) (\<lambda>ap7.
     load_state_dict ap7 g6))))))"

subsection \<open>Resetting the weights of a model\<close>

text \<open>
  \<^verbatim>\<open>PrunableNet.reset_weights\<close>. The three sources are \<^verbatim>\<open>local_state\<close> itself or the
  given global state. \<^verbatim>\<open>new_state[name] = local_state[name]\<close> stores the tensor of
  \<^verbatim>\<open>local_state\<close>, not a copy, so every write through \<^verbatim>\<open>new_state\<close> is a write to
  \<^verbatim>\<open>local_state\<close> as well: the model keeps both dictionaries and updates both, and a source
  that is \<^verbatim>\<open>local_state\<close> is read in its current state.
\<close>

datatype source = Local | Global state_dict

definition source_lookup :: "source \<Rightarrow> state_dict \<Rightarrow> string \<Rightarrow> tensor option" where
  "source_lookup s local_state k =
     (case s of Local \<Rightarrow> map_of local_state k | Global g \<Rightarrow> map_of g k)"

definition source_items :: "source \<Rightarrow> state_dict \<Rightarrow> state_dict" where
  "source_items s local_state = (case s of Local \<Rightarrow> local_state | Global g \<Rightarrow> g)"

text \<open>
  \<^verbatim>\<open>dest.copy_(src)\<close> keeps the element type of the destination;
  \<^verbatim>\<open>dest[m] = param[m]\<close> copies the elements selected by the mask.
\<close>

fun copy_into :: "tensor \<Rightarrow> tensor \<Rightarrow> error + tensor" where
  "copy_into (FloatT d) src =
     (if length d = numel src then Inr (FloatT (floats src)) else Inl RuntimeError)"
| "copy_into (BoolT d) src =
     (if length d = numel src then Inr (BoolT (bools src)) else Inl RuntimeError)"

definition masked_copy :: "bool list \<Rightarrow> tensor \<Rightarrow> tensor \<Rightarrow> error + tensor" where
  "masked_copy m param dest =
     (if length m = numel param \<and> length m = numel dest
      then Inr (case dest of
             FloatT d \<Rightarrow>
               FloatT (map (\<lambda>(b, p, x). if b then p else x) (zip m (zip (floats param) d)))
           | BoolT d \<Rightarrow>
               BoolT (map (\<lambda>(b, p, x). if b then p else x) (zip m (zip (bools param) d))))
      else Inl IndexError)"

text \<open>
  One iteration of \<^verbatim>\<open>for name, param in param_source.items()\<close>:
  \<^verbatim>\<open>
  if name.endswith('_mask'):
      continue
  new_state[name] = local_state[name]
  mask_name = name + '_mask'
  if needs_mask(name) and mask_name in apply_mask_source:
      mask_to_apply = apply_mask_source[mask_name].to(self.device, dtype=torch.bool)
      mask_to_copy = copy_mask_source[mask_name].to(self.device, dtype=torch.bool)
      gpu_param = param[mask_to_apply].to(self.device)
      new_state[name][mask_to_apply] = gpu_param
      if pruning_type == 'hard':
          new_state[name][~mask_to_apply] = 0
      if mask_name in local_state:
          new_state[mask_name] = local_state[mask_name]
      new_state[mask_name].copy_(mask_to_copy)
      if mask_name not in local_state or not torch.equal(local_state[mask_name], mask_to_copy):
          mask_changed = True
  else:
      gpu_param = param.to(self.device)
      new_state[name].copy_(gpu_param)
  \<close>
  Without \<^verbatim>\<open>local_state[mask_name]\<close> the copy has no destination and raises. The
  comparison of \<^verbatim>\<open>torch.equal\<close> reads \<^verbatim>\<open>local_state[mask_name]\<close> after the copy has
  written it.
\<close>

record reset_state =
  local_state :: state_dict
  new_state :: state_dict
  mask_changed :: bool

definition reset_step ::
  "pruning_type \<Rightarrow> source \<Rightarrow> source \<Rightarrow> source \<Rightarrow> string \<Rightarrow> reset_state
     \<Rightarrow> error + reset_state" where
  "reset_step pt param_source apply_mask_source copy_mask_source name S =
     (if endswith name ''_mask'' then Inr S
      else
        case source_lookup param_source (local_state S) name of
          None \<Rightarrow> Inl KeyError
        | Some param \<Rightarrow>
        (case map_of (local_state S) name of
          None \<Rightarrow> Inl KeyError
        | Some lt \<Rightarrow>
            let mask_name = name @ ''_mask'' in
            (case (if needs_mask name
                   then source_lookup apply_mask_source (local_state S) mask_name
                   else None) of
               Some ma \<Rightarrow>
                 (case source_lookup copy_mask_source (local_state S) mask_name of
                    None \<Rightarrow> Inl KeyError
                  | Some mc \<Rightarrow>
                      let mask_to_apply = bools ma; mask_to_copy = bools mc in
                      bindE (masked_copy mask_to_apply param lt) (\<lambda>w1.
                      let w2 = (if pt = Hard then zero_outside mask_to_apply w1 else w1) in
                      case map_of (local_state S) mask_name of
                        None \<Rightarrow> Inl KeyError
                      | Some lm \<Rightarrow>
                          bindE (copy_into lm (BoolT mask_to_copy)) (\<lambda>lm'.
                          Inr \<lparr>local_state =
                                 AList.update mask_name lm'
                                   (AList.update name w2 (local_state S)),
                               new_state =
                                 AList.update mask_name lm'
                                   (AList.update name w2 (new_state S)),
                               mask_changed =
                                 (mask_changed S \<or> bools lm' \<noteq> mask_to_copy)\<rparr>)))
             | None \<Rightarrow>
                 bindE (copy_into lt param) (\<lambda>lt'.
                 Inr \<lparr>local_state = AList.update name lt' (local_state S),
                      new_state = AList.update name lt' (new_state S),
                      mask_changed = mask_changed S\<rparr>))))"

text \<open>
  The whole call. \<^verbatim>\<open>self.communication_sparsity = self.sparsity(apply_mask_source.items())\<close>
  sets an attribute that is not part of the model; only its exception is (\<open>f32\<close> is the
  rounding of that call). The result is the model after
  \<^verbatim>\<open>self.load_state_dict(new_state)\<close> and \<^verbatim>\<open>mask_changed\<close>.
\<close>

definition reset_weights ::
  "(real \<Rightarrow> real) \<Rightarrow> net \<Rightarrow> state_dict option \<Rightarrow> bool \<Rightarrow> bool \<Rightarrow> pruning_type
     \<Rightarrow> error + net \<times> bool" where
  "reset_weights f32 n global_state use_global_mask global_communication_mask pt =
     (let param_source = (case global_state of None \<Rightarrow> Local | Some g \<Rightarrow> Global g);
          apply_mask_source = (if use_global_mask then param_source else Local);
          copy_mask_source = (if global_communication_mask then Local else apply_mask_source)
      in
      bindE (sparsity_of f32 (source_items apply_mask_source (state_dict n)))
        (\<lambda>communication_sparsity.
      bindE (foldE (reset_step pt param_source apply_mask_source copy_mask_source)
               (map fst (source_items param_source (state_dict n)))
               \<lparr>local_state = state_dict n, new_state = [], mask_changed = False\<rparr>) (\<lambda>S.
      bindE (load_state_dict (new_state S) n) (\<lambda>n'.
      Inr (n', mask_changed S)))))"

text \<open>
  \<^verbatim>\<open>Client.train\<close> charges the download of a mask only for a changed mask:
  \<^verbatim>\<open>if mask_changed: dl_cost += self.net.mask_size\<close>.
\<close>

definition dl_mask_cost :: "bool \<Rightarrow> int \<Rightarrow> int" where
  "dl_mask_cost changed mask_size = (if changed then mask_size else 0)"

definition reset_example :: net where
  "reset_example =
     [\<lparr>lname = ''conv1'', weight = [Fin 1, Fin (-3), Fin 2], bias = [Fin 7],
        weight_mask = [True, False, True], grad = None\<rparr>,
      \<lparr>lname = ''fc1'', weight = [Fin 4, Fin (-1)], bias = [Fin 1],
        weight_mask = [False, False], grad = None\<rparr>]"

subsection \<open>Auxiliary notions for the proofs\<close>

text \<open>
  The keys of one child in \<^verbatim>\<open>state_dict()\<close>; the layer that applying its own mask
  leaves; and the invariant of the loop of \<^verbatim>\<open>reset_weights\<close> when all three sources
  are the local state: every tensor of \<^verbatim>\<open>local_state\<close> is the original one or already
  the masked one, and \<^verbatim>\<open>new_state\<close> holds masked ones only.
\<close>

definition layer_keys :: "layer \<Rightarrow> string list" where
  "layer_keys l = [lname l @ ''.weight'', lname l @ ''.bias'', lname l @ ''.weight_mask'']"

definition apply_mask :: "pruning_type \<Rightarrow> layer \<Rightarrow> layer" where
  "apply_mask pt l =
     l\<lparr>weight := (if pt = Hard
                  then map2 (\<lambda>b x. if b then x else Fin 0) (weight_mask l) (weight l)
                  else weight l)\<rparr>"

definition reset_inv :: "pruning_type \<Rightarrow> net \<Rightarrow> reset_state \<Rightarrow> bool" where
  "reset_inv pt n S =
     ((\<forall>k. map_of (local_state S) k = map_of (state_dict n) k
          \<or> map_of (local_state S) k = map_of (state_dict (map (apply_mask pt) n)) k)
      \<and> (\<forall>k v. map_of (new_state S) k = Some v
            \<longrightarrow> map_of (state_dict (map (apply_mask pt) n)) k = Some v)
      \<and> \<not> mask_changed S)"


subsection \<open>Auxiliary notions for the aggregation proofs\<close>

text \<open>
  The key set of a dictionary; the key sets of the three accumulators and the
  distinctness of their keys; what one pass of the reduction loop leaves of an entry
  (untouched, or reduced); and the two facts about an entry of \<^verbatim>\<open>aggregated_params\<close>
  that the last loop of the round establishes or keeps (zero outside the new mask,
  finite everywhere).
\<close>

definition keys :: "state_dict \<Rightarrow> string set" where
  "keys d = fst ` set d"

definition acc_keys :: "accs \<Rightarrow> string set \<times> string set \<times> string set" where
  "acc_keys A = (keys (aggregated_params A), keys (aggregated_params_for_mask A),
     keys (aggregated_masks A))"

definition acc_distinct :: "accs \<Rightarrow> bool" where
  "acc_distinct A = (distinct (map fst (aggregated_params A))
     \<and> distinct (map fst (aggregated_params_for_mask A))
     \<and> distinct (map fst (aggregated_masks A)))"

definition same_entry :: "accs \<Rightarrow> accs \<Rightarrow> string \<Rightarrow> bool" where
  "same_entry A B name =
     (map_of (aggregated_params B) name = map_of (aggregated_params A) name
      \<and> map_of (aggregated_params_for_mask B) name = map_of (aggregated_params_for_mask A) name
      \<and> map_of (aggregated_masks B) name = map_of (aggregated_masks A) name)"

definition reduced_entry :: "args \<Rightarrow> accs \<Rightarrow> accs \<Rightarrow> string \<Rightarrow> bool" where
  "reduced_entry a A B name =
     (\<exists>p pfm m p2 m3.
        map_of (aggregated_params A) name = Some p
      \<and> map_of (aggregated_params_for_mask A) name = Some pfm
      \<and> map_of (aggregated_masks A) name = Some m
      \<and> reduce_masked a (floats p) (floats pfm) (floats m) = Inr (p2, p2, m3)
      \<and> map_of (aggregated_params B) name = Some (FloatT p2)
      \<and> map_of (aggregated_params_for_mask B) name = Some (FloatT p2)
      \<and> map_of (aggregated_masks B) name = Some (FloatT m3))"

definition enforced :: "state_dict \<Rightarrow> state_dict \<Rightarrow> string \<Rightarrow> bool" where
  "enforced gp ap name =
     (\<exists>m w. map_of gp (name @ ''_mask'') = Some (BoolT m)
        \<and> map_of ap (name @ ''_mask'') = Some (BoolT m)
        \<and> map_of ap name = Some w \<and> numel w = length m
        \<and> (\<forall>p < length m. \<not> m ! p \<longrightarrow> floats w ! p = Fin 0))"

definition fin_entry :: "state_dict \<Rightarrow> string \<Rightarrow> bool" where
  "fin_entry ap name =
     (\<exists>w. map_of ap name = Some w \<and> (\<forall>p < numel w. \<exists>r. floats w ! p = Fin r))"

text \<open>
  The number of sampled clients that report a position as active, as the specification
  counts votes ("observed as active by fewer than \<^verbatim>\<open>min_votes\<close> clients").
\<close>

definition observed_active :: "string \<Rightarrow> nat \<Rightarrow> nat \<times> state_dict \<Rightarrow> bool" where
  "observed_active name p c =
     (case map_of (snd c) (name @ ''_mask'') of
        None \<Rightarrow> False
      | Some t \<Rightarrow> p < numel t \<and> bools t ! p)"

definition n_observers :: "(nat \<times> state_dict) list \<Rightarrow> string \<Rightarrow> nat \<Rightarrow> nat" where
  "n_observers clients name p = length (filter (observed_active name p) clients)"

text \<open>
  Example inputs: options with the given \<^verbatim>\<open>min_votes\<close> and \<^verbatim>\<open>remember_old\<close>, and a
  network with the single child \<^verbatim>\<open>fc\<close>.
\<close>

definition vote_args :: "int \<Rightarrow> bool \<Rightarrow> args" where
  "vote_args mv ro = \<lparr>sparsity = 0, final_sparsity = 0, readjustment_ratio = 1/2,
       rate_decay_method = Constant, rate_decay_end = 10, rounds_between_readjustments = 10,
       pruning_begin = 9, pruning_interval = 10, remember_old = ro, min_votes = mv,
       fp16 = False, prune_kind = Hard\<rparr>"

definition fc_net :: "fval list \<Rightarrow> fval list \<Rightarrow> bool list \<Rightarrow> net" where
  "fc_net w b m = [\<lparr>lname = ''fc'', weight = w, bias = b, weight_mask = m, grad = None\<rparr>]"

text \<open>Example networks for the concrete evaluations below.\<close>

definition grow_example :: layer where
  "grow_example = \<lparr>lname = ''fc'', weight = [Fin 1, Fin 2], bias = [Fin 0],
     weight_mask = [True, False], grad = Some [Fin 5, Fin 1]\<rparr>"

definition prune_example :: net where
  "prune_example =
     [\<lparr>lname = ''conv1'', weight = [Fin 1, Fin (-3), Fin 2], bias = [Fin 7],
        weight_mask = [True, True, True], grad = None\<rparr>,
      \<lparr>lname = ''fc1'', weight = [Fin 4, Fin (-1)], bias = [Fin 1],
        weight_mask = [True, True], grad = None\<rparr>,
      \<lparr>lname = ''fc2'', weight = [Fin 5, Fin 6], bias = [Fin 2],
        weight_mask = [True, False], grad = None\<rparr>]"

definition prune_example_targets :: "string \<Rightarrow> np_float" where
  "prune_example_targets name =
     (if name = ''conv1'' then Whole 1 else if name = ''fc1'' then Whole 3 else Whole (-1))"

subsection \<open>Auxiliary notions for the termination of a round\<close>

text \<open>
  Two children have the same shape when they have the same name and their weights,
  biases and masks have the same numbers of elements: what \<^verbatim>\<open>load_state_dict\<close> and
  the element-wise operations of the round require of the state of a client.
\<close>

definition same_shape :: "layer \<Rightarrow> layer \<Rightarrow> bool" where
  "same_shape l c = (lname c = lname l \<and> length (weight c) = length (weight l)
     \<and> length (bias c) = length (bias l) \<and> length (weight_mask c) = length (weight_mask l))"

text \<open>
  The accumulators hold, for every child of the global model, entries of the sizes of its
  weight and its bias.
\<close>

definition acc_shape :: "net \<Rightarrow> accs \<Rightarrow> bool" where
  "acc_shape g A =
     (\<forall>l \<in> set g.
        (\<exists>t. map_of (aggregated_params A) (lname l @ ''.weight'') = Some t
             \<and> numel t = length (weight l))
      \<and> (\<exists>t. map_of (aggregated_params_for_mask A) (lname l @ ''.weight'') = Some t
             \<and> numel t = length (weight l))
      \<and> (\<exists>t. map_of (aggregated_masks A) (lname l @ ''.weight'') = Some t
             \<and> numel t = length (weight l))
      \<and> (\<exists>t. map_of (aggregated_params A) (lname l @ ''.bias'') = Some t
             \<and> numel t = length (bias l))
      \<and> (\<exists>t. map_of (aggregated_params_for_mask A) (lname l @ ''.bias'') = Some t
             \<and> numel t = length (bias l)))"

text \<open>Every entry of the first dictionary has an entry of the same size in the second.\<close>

definition shape_le :: "state_dict \<Rightarrow> state_dict \<Rightarrow> bool" where
  "shape_le d d' = (\<forall>k t. map_of d k = Some t \<longrightarrow> (\<exists>t'. map_of d' k = Some t' \<and> numel t' = numel t))"

text \<open>
  The three steps of the decoding loop over the items of one child, taken together, and
  the dictionaries that the loop can build from the children of a client.
\<close>

definition decode_layer ::
  "(fval \<Rightarrow> fval) \<Rightarrow> args \<Rightarrow> layer \<Rightarrow> state_dict \<times> state_dict \<Rightarrow> state_dict \<times> state_dict" where
  "decode_layer bf16 a c D =
     (AList.update (lname c @ ''.bias'') (received bf16 a (FloatT (bias c)))
        (AList.update (lname c @ ''.weight'') (received bf16 a (FloatT (weight c))) (fst D)),
      AList.update (lname c @ ''.weight'') (BoolT (weight_mask c)) (snd D))"

definition from_layers :: "net \<Rightarrow> state_dict \<times> state_dict \<Rightarrow> bool" where
  "from_layers cn D =
     ((\<forall>(name, v) \<in> set (fst D). \<exists>c \<in> set cn.
          (name = lname c @ ''.weight'' \<and> numel v = length (weight c))
        \<or> (name = lname c @ ''.bias'' \<and> numel v = length (bias c)))
      \<and> (\<forall>(name, v) \<in> set (snd D). \<exists>c \<in> set cn.
          name = lname c @ ''.weight'' \<and> v = BoolT (weight_mask c)))"

text \<open>
  A dictionary of parameters holds, for every child, a weight and a bias of the right
  sizes, and no name that the network does not know.
\<close>

definition param_shape :: "net \<Rightarrow> state_dict \<Rightarrow> bool" where
  "param_shape g ap =
     ((\<forall>l \<in> set g.
        (\<exists>t. map_of ap (lname l @ ''.weight'') = Some t \<and> numel t = length (weight l))
      \<and> (\<exists>t. map_of ap (lname l @ ''.bias'') = Some t \<and> numel t = length (bias l)))
      \<and> keys ap \<subseteq> keys (state_dict g))"

section \<open>Properties\<close>

subsection \<open>Sequencing\<close>

lemma bindE_Inr [simp]: "bindE (Inr x) f = f x"
  by (simp add: bindE_def)

lemma bindE_Inl [simp]: "bindE (Inl e) f = Inl e"
  by (simp add: bindE_def)

lemma bindE_eq_Inr: "bindE m f = Inr y \<longleftrightarrow> (\<exists>x. m = Inr x \<and> f x = Inr y)"
  by (cases m) simp_all

lemma mapE_Inr_length: "mapE f xs = Inr ys \<Longrightarrow> length ys = length xs"
  by (induction xs arbitrary: ys) (auto split: sum.splits)

lemma mapE_Inr_nth: "mapE f xs = Inr ys \<Longrightarrow> i < length xs \<Longrightarrow> f (xs ! i) = Inr (ys ! i)"
proof (induction xs arbitrary: ys i)
  case Nil
  then show ?case by simp
next
  case (Cons x xs)
  then show ?case by (cases i) (auto split: sum.splits)
qed

lemma mapE_all_Inr:
  "(\<And>x. x \<in> set xs \<Longrightarrow> \<exists>y. f x = Inr y) \<Longrightarrow> \<exists>ys. mapE f xs = Inr ys"
proof (induction xs)
  case Nil
  then show ?case by simp
next
  case (Cons x xs)
  then obtain y where "f x = Inr y" by auto
  moreover from Cons obtain ys where "mapE f xs = Inr ys" by auto
  ultimately show ?case by simp
qed

subsection \<open>Index assignment and selection\<close>

lemma fold_assign_length: "length (fold (\<lambda>i ys. ys[i := v]) idx xs) = length xs"
  by (induction idx arbitrary: xs) simp_all

lemma fold_assign_nth:
  "j < length xs \<Longrightarrow>
   fold (\<lambda>i ys. ys[i := v]) idx xs ! j = (if j \<in> set idx then v else xs ! j)"
proof (induction idx arbitrary: xs)
  case Nil
  then show ?case by simp
next
  case (Cons i idx)
  then show ?case by (auto simp: nth_list_update)
qed

lemma assign_at_Inr:
  "assign_at idx v xs = Inr ys \<Longrightarrow>
   length ys = length xs \<and> (\<forall>i \<in> set idx. i < length xs)
   \<and> (\<forall>j < length xs. ys ! j = (if j \<in> set idx then v else xs ! j))"
  by (auto simp: assign_at_def list_all_iff fold_assign_length fold_assign_nth
      split: if_splits)

lemma assign_at_ok:
  "\<forall>i \<in> set idx. i < length xs \<Longrightarrow> \<exists>ys. assign_at idx v xs = Inr ys"
  by (simp add: assign_at_def list_all_iff)

text \<open>What \<open>is_topk\<close> says, as rules.\<close>

lemma is_topkD:
  assumes "is_topk largest vs k idx"
  shows "length idx = k" and "distinct idx" and "\<And>i. i \<in> set idx \<Longrightarrow> i < length vs"
    and "\<And>i j. i \<in> set idx \<Longrightarrow> j < length vs \<Longrightarrow> j \<notin> set idx \<Longrightarrow>
           (if largest then topk_key (vs ! j) \<le> topk_key (vs ! i)
            else topk_key (vs ! i) \<le> topk_key (vs ! j))"
proof -
  from assms show "length idx = k" and "distinct idx" and "\<And>i. i \<in> set idx \<Longrightarrow> i < length vs"
    by (auto simp: is_topk_def list_all_iff)
  fix i j assume i: "i \<in> set idx" and j: "j < length vs" and nj: "j \<notin> set idx"
  from assms have "\<forall>i \<in> set idx. \<forall>j \<in> set [0..<length vs]. j \<in> set idx
      \<or> (if largest then topk_key (vs ! j) \<le> topk_key (vs ! i)
          else topk_key (vs ! i) \<le> topk_key (vs ! j))"
    by (simp add: is_topk_def list_all_iff)
  moreover from j have "j \<in> set [0..<length vs]" by simp
  ultimately show "(if largest then topk_key (vs ! j) \<le> topk_key (vs ! i)
            else topk_key (vs ! i) \<le> topk_key (vs ! j))"
    using i nj by blast
qed

text \<open>The stable selection is one that the library may return.\<close>

lemma topk_stable_is_topk:
  assumes "k \<le> length vs"
  shows "is_topk largest vs k (topk_stable largest vs k)"
proof -
  let ?f = "\<lambda>i. topk_key (vs ! i)"
  let ?n = "length vs"
  define s where "s = sort_key ?f [0..<?n]"
  define r where "r = (if largest then rev s else s)"
  have idx: "topk_stable largest vs k = take k r"
    by (simp add: topk_stable_def r_def s_def)
  have len: "length r = ?n" and dist: "distinct r" and st: "set r = {0..<?n}"
    by (simp_all add: r_def s_def)
  have srt: "sorted (map ?f (take m s) @ map ?f (drop m s))" for m
    unfolding s_def by (metis append_take_drop_id map_append sorted_sort_key)
  have l: "length (take k r) = k" using assms len by simp
  have d: "distinct (take k r)" using dist by (rule distinct_take)
  have b: "i < ?n" if "i \<in> set (take k r)" for i
    using that st by (auto dest: in_set_takeD)
  have o: "(if largest then ?f j \<le> ?f i else ?f i \<le> ?f j)"
    if i: "i \<in> set (take k r)" and j: "j < ?n" and nj: "j \<notin> set (take k r)" for i j
  proof -
    have "set (take k r) \<union> set (drop k r) = set r"
      by (metis append_take_drop_id set_append)
    with j st nj have jd: "j \<in> set (drop k r)" by auto
    show ?thesis
    proof (cases largest)
      case False
      with i jd have "i \<in> set (take k s)" "j \<in> set (drop k s)" by (simp_all add: r_def)
      with srt [of k] False show ?thesis by (auto simp: sorted_append)
    next
      case True
      have ls: "length s = ?n" by (simp add: s_def)
      from i True have "i \<in> set (drop (?n - k) s)" by (simp add: r_def take_rev ls)
      moreover from jd True have "j \<in> set (take (?n - k) s)"
        by (simp add: r_def drop_rev ls)
      ultimately show ?thesis using srt [of "?n - k"] True by (auto simp: sorted_append)
    qed
  qed
  show ?thesis
    unfolding is_topk_def idx list_all_iff
  proof (intro conjI ballI)
    show "length (take k r) = k" by (rule l)
  next
    show "distinct (take k r)" by (rule d)
  next
    fix i assume "i \<in> set (take k r)"
    then show "i < ?n" by (rule b)
  next
    fix i j assume i: "i \<in> set (take k r)" and "j \<in> set [0..<?n]"
    then have j: "j < ?n" by simp
    from o [OF i j] show "j \<in> set (take k r)
        \<or> (if largest then ?f j \<le> ?f i else ?f i \<le> ?f j)" by blast
  qed
qed

subsection \<open>Pruning one layer\<close>

lemma prune_layer_skip:
  "int (length (weight_mask l)) - t < 0
     \<or> int (length (weight_mask l)) - t \<ge> int (length (weight_mask l))
   \<Longrightarrow> prune_layer topk (Whole t) pt l = Inr l"
  by (auto simp: prune_layer_def Let_def)

text \<open>What a prune that is not skipped does, read off a successful return.\<close>

lemma prune_layer_effect:
  assumes ret: "prune_layer topk (Whole t) pt l = Inr l'"
    and lo: "0 \<le> int (length (weight_mask l)) - t"
    and hi: "int (length (weight_mask l)) - t < int (length (weight_mask l))"
  defines "idx \<equiv> topk False (map fabs (weight l)) (nat (int (length (weight_mask l)) - t))"
  shows "length (weight l') = length (weight l)"
    and "length (weight_mask l') = length (weight_mask l)"
    and "\<forall>p \<in> set idx. p < length (weight_mask l)"
    and "\<forall>p < length (weight_mask l). weight_mask l' ! p = (p \<notin> set idx \<and> weight_mask l ! p)"
    and "\<forall>p < length (weight l).
           weight l' ! p = (if pt = Hard \<and> p \<in> set idx then Fin 0 else weight l ! p)"
    and "lname l' = lname l" and "bias l' = bias l" and "grad l' = grad l"
proof -
  let ?k = "nat (int (length (weight_mask l)) - t)"
  from ret lo hi have k: "?k \<le> length (weight l)"
    by (auto simp: prune_layer_def Let_def split: if_splits)
  from ret lo hi k obtain w' m' where
    w': "(if pt = Hard then assign_at idx (Fin 0) (weight l) else Inr (weight l)) = Inr w'"
    and m': "assign_at idx False (weight_mask l) = Inr m'"
    and l': "l' = l\<lparr>weight := w', weight_mask := m'\<rparr>"
    by (auto simp: prune_layer_def Let_def idx_def bindE_eq_Inr split: if_splits)
  show "length (weight l') = length (weight l)"
    using w' l' by (auto dest: assign_at_Inr split: if_splits)
  show "length (weight_mask l') = length (weight_mask l)"
    using m' l' by (auto dest: assign_at_Inr)
  show "\<forall>p \<in> set idx. p < length (weight_mask l)"
    using m' by (auto dest: assign_at_Inr)
  show "\<forall>p < length (weight_mask l). weight_mask l' ! p = (p \<notin> set idx \<and> weight_mask l ! p)"
    using assign_at_Inr [OF m'] l' by auto
  show "\<forall>p < length (weight l).
           weight l' ! p = (if pt = Hard \<and> p \<in> set idx then Fin 0 else weight l ! p)"
  proof (cases "pt = Hard")
    case True
    with w' have "assign_at idx (Fin 0) (weight l) = Inr w'" by simp
    from assign_at_Inr [OF this] l' True show ?thesis by auto
  next
    case False
    with w' l' show ?thesis by auto
  qed
  show "lname l' = lname l" "bias l' = bias l" "grad l' = grad l"
    using l' by simp_all
qed

text \<open>
  A layer whose mask has the shape of its weight is pruned without an exception, when
  the selected positions are positions of the weight.
\<close>

lemma prune_layer_returns:
  assumes "length (weight_mask l) = length (weight l)"
    and "\<forall>i \<in> set (topk False (map fabs (weight l)) (nat (int (length (weight_mask l)) - t))).
           i < length (weight l)"
  shows "\<exists>l'. prune_layer topk (Whole t) pt l = Inr l'"
proof -
  let ?idx = "topk False (map fabs (weight l)) (nat (int (length (weight_mask l)) - t))"
  from assign_at_ok [OF assms(2)] obtain w' where
    w: "assign_at ?idx (Fin 0) (weight l) = Inr w'" by blast
  from assms have "\<forall>i \<in> set ?idx. i < length (weight_mask l)" by simp
  from assign_at_ok [OF this] obtain m' where
    m: "assign_at ?idx False (weight_mask l) = Inr m'" by blast
  show ?thesis
    using assms(1) w m by (auto simp: prune_layer_def Let_def)
qed

text \<open>
  Claim C9. For every layer, when \<open>n_prune = n_total - target\<close> is negative or at least
  \<open>n_total\<close>, \<^verbatim>\<open>layer_prune\<close> leaves the weights and the mask of that layer (and everything
  else of it) unchanged.
\<close>

theorem layer_prune_skips_out_of_range:
  assumes "layer_prune topk weights_by_layer pt n = Inr n'"
    and "i < length n"
    and "weights_by_layer (lname (n ! i)) = Whole t"
    and "int (length (weight_mask (n ! i))) - t < 0
         \<or> int (length (weight_mask (n ! i))) - t \<ge> int (length (weight_mask (n ! i)))"
  shows "length n' = length n \<and> n' ! i = n ! i"
proof -
  from assms(1) have len: "length n' = length n"
    by (simp add: layer_prune_def mapE_Inr_length)
  from assms(1,2)
  have "prune_layer topk (weights_by_layer (lname (n ! i))) pt (n ! i) = Inr (n' ! i)"
    unfolding layer_prune_def by (rule mapE_Inr_nth)
  with assms(3) prune_layer_skip [OF assms(4), of topk pt] have "n' ! i = n ! i" by simp
  with len show ?thesis by simp
qed

text \<open>
  In the example network the first layer is pruned (target 1 of 3), the second has a
  target above its size (\<open>n_prune = -1\<close>) and the third a negative target
  (\<open>n_prune = 3 \<ge> 2\<close>): both are returned as they were.
\<close>

theorem layer_prune_skips_out_of_range_witness:
  "(\<exists>n'. layer_prune topk_stable prune_example_targets Hard prune_example = Inr n'
          \<and> length n' = 3 \<and> n' ! 1 = prune_example ! 1 \<and> n' ! 2 = prune_example ! 2)"
proof -
  have "layer_prune topk_stable prune_example_targets Hard prune_example =
      Inr [\<lparr>lname = ''conv1'', weight = [Fin 0, Fin (-3), Fin 0], bias = [Fin 7],
              weight_mask = [False, True, False], grad = None\<rparr>,
           prune_example ! 1, prune_example ! 2]"
    by code_simp
  then obtain n' where
    r: "layer_prune topk_stable prune_example_targets Hard prune_example = Inr n'"
    by blast
  have i1: "(1::nat) < length prune_example" and i2: "(2::nat) < length prune_example"
    by (simp_all add: prune_example_def)
  have t1: "prune_example_targets (lname (prune_example ! 1)) = Whole 3"
    by (simp add: prune_example_def prune_example_targets_def)
  have t2: "prune_example_targets (lname (prune_example ! 2)) = Whole (-1)"
    by (simp add: prune_example_def prune_example_targets_def)
  have c1: "int (length (weight_mask (prune_example ! 1))) - 3 < 0
     \<or> int (length (weight_mask (prune_example ! 1))) - 3
         \<ge> int (length (weight_mask (prune_example ! 1)))"
    by (simp add: prune_example_def)
  have c2: "int (length (weight_mask (prune_example ! 2))) - (-1) < 0
     \<or> int (length (weight_mask (prune_example ! 2))) - (-1)
         \<ge> int (length (weight_mask (prune_example ! 2)))"
    by (simp add: prune_example_def)
  from layer_prune_skips_out_of_range [OF r i1 t1 c1]
       layer_prune_skips_out_of_range [OF r i2 t2 c2] r
  show ?thesis by (simp add: prune_example_def)
qed

text \<open>
  Claim C6. For every layer and every valid \<open>n_prune\<close> (\<open>0 \<le> n_prune < n_total\<close>): let
  \<open>idx\<close> be the positions that \<^verbatim>\<open>torch.topk(torch.abs(weight), n_prune, largest=False)\<close>
  returns, any answer the library may give (\<open>is_topk\<close>: among equal magnitudes the choice
  is the library's). They are \<open>n_prune\<close> distinct positions of smallest magnitude; after
  hard pruning each of them has weight exactly 0 and mask bit 0, after soft pruning each
  keeps its weight and has mask bit 0. Every other position keeps its weight and its mask
  bit.
\<close>

theorem layer_prune_selected_positions:
  assumes "layer_prune topk weights_by_layer pt n = Inr n'"
    and "i < length n"
    and "weights_by_layer (lname (n ! i)) = Whole t"
    and "0 \<le> int (length (weight_mask (n ! i))) - t"
    and "int (length (weight_mask (n ! i))) - t < int (length (weight_mask (n ! i)))"
    and "idx = topk False (map fabs (weight (n ! i)))
                 (nat (int (length (weight_mask (n ! i))) - t))"
    and "is_topk False (map fabs (weight (n ! i)))
           (nat (int (length (weight_mask (n ! i))) - t)) idx"
  shows "length idx = nat (int (length (weight_mask (n ! i))) - t) \<and> distinct idx
    \<and> (\<forall>p \<in> set idx.
          p < length (weight (n ! i))
        \<and> (\<forall>q < length (weight (n ! i)).
              q \<notin> set idx \<longrightarrow> topk_key (fabs (weight (n ! i) ! p))
                                  \<le> topk_key (fabs (weight (n ! i) ! q)))
        \<and> \<not> weight_mask (n' ! i) ! p
        \<and> (pt = Hard \<longrightarrow> weight (n' ! i) ! p = Fin 0)
        \<and> (pt = Soft \<longrightarrow> weight (n' ! i) ! p = weight (n ! i) ! p))
    \<and> (\<forall>q. q \<notin> set idx \<longrightarrow>
          (q < length (weight (n ! i)) \<longrightarrow> weight (n' ! i) ! q = weight (n ! i) ! q)
        \<and> (q < length (weight_mask (n ! i))
             \<longrightarrow> weight_mask (n' ! i) ! q = weight_mask (n ! i) ! q))"
proof -
  let ?w = "weight (n ! i)"
  from assms(1,2)
  have "prune_layer topk (weights_by_layer (lname (n ! i))) pt (n ! i) = Inr (n' ! i)"
    unfolding layer_prune_def by (rule mapE_Inr_nth)
  with assms(3) have ret: "prune_layer topk (Whole t) pt (n ! i) = Inr (n' ! i)" by simp
  note e = prune_layer_effect [OF ret assms(4,5), folded assms(6)]
  note c = is_topkD [OF assms(7)]
  have b: "\<And>p. p \<in> set idx \<Longrightarrow> p < length ?w"
    using c(3) by simp
  have "\<And>p q. p \<in> set idx \<Longrightarrow> q < length ?w \<Longrightarrow> q \<notin> set idx
      \<Longrightarrow> topk_key (fabs (?w ! p)) \<le> topk_key (fabs (?w ! q))"
  proof -
    fix p q assume p: "p \<in> set idx" and q: "q < length ?w" and nq: "q \<notin> set idx"
    from q have "q < length (map fabs ?w)" by simp
    from c(4) [OF p this nq] b [OF p] q
    show "topk_key (fabs (?w ! p)) \<le> topk_key (fabs (?w ! q))" by simp
  qed
  moreover have "\<And>p. p \<in> set idx \<Longrightarrow> \<not> weight_mask (n' ! i) ! p"
    using e(3,4) by auto
  moreover have "\<And>p. p \<in> set idx \<Longrightarrow> pt = Hard \<Longrightarrow> weight (n' ! i) ! p = Fin 0"
    using e(5) b by auto
  moreover have "\<And>p. p \<in> set idx \<Longrightarrow> pt = Soft \<Longrightarrow> weight (n' ! i) ! p = ?w ! p"
    using e(5) b by auto
  moreover have "\<And>q. q \<notin> set idx \<Longrightarrow> q < length ?w \<Longrightarrow> weight (n' ! i) ! q = ?w ! q"
    using e(5) by auto
  moreover have "\<And>q. q \<notin> set idx \<Longrightarrow> q < length (weight_mask (n ! i))
      \<Longrightarrow> weight_mask (n' ! i) ! q = weight_mask (n ! i) ! q"
    using e(4) by auto
  ultimately show ?thesis using c(1,2) b by blast
qed

text \<open>
  The first layer of the example, target 1 of 3: the two smallest magnitudes are at
  positions 0 and 2; hard pruning zeroes them, soft pruning keeps 1 and 2 there.
\<close>

theorem layer_prune_selected_positions_witness:
  "(\<exists>n'. layer_prune topk_stable prune_example_targets Hard prune_example = Inr n'
      \<and> \<not> weight_mask (n' ! 0) ! 0 \<and> \<not> weight_mask (n' ! 0) ! 2
      \<and> weight (n' ! 0) ! 0 = Fin 0 \<and> weight (n' ! 0) ! 2 = Fin 0)
   \<and> (\<exists>n'. layer_prune topk_stable prune_example_targets Soft prune_example = Inr n'
      \<and> \<not> weight_mask (n' ! 0) ! 0 \<and> \<not> weight_mask (n' ! 0) ! 2
      \<and> weight (n' ! 0) ! 0 = Fin 1 \<and> weight (n' ! 0) ! 2 = Fin 2)"
proof -
  have i: "(0::nat) < length prune_example" by (simp add: prune_example_def)
  have t: "prune_example_targets (lname (prune_example ! 0)) = Whole 1"
    by (simp add: prune_example_def prune_example_targets_def)
  have lo: "0 \<le> int (length (weight_mask (prune_example ! 0))) - 1"
    and hi: "int (length (weight_mask (prune_example ! 0))) - 1
               < int (length (weight_mask (prune_example ! 0)))"
    by (simp_all add: prune_example_def)
  have idx: "[0, 2] = topk_stable False (map fabs (weight (prune_example ! 0)))
      (nat (int (length (weight_mask (prune_example ! 0))) - 1))"
    by code_simp
  have sel: "is_topk False (map fabs (weight (prune_example ! 0)))
      (nat (int (length (weight_mask (prune_example ! 0))) - 1)) [0, 2]"
    by code_simp
  have h: "layer_prune topk_stable prune_example_targets Hard prune_example =
      Inr [\<lparr>lname = ''conv1'', weight = [Fin 0, Fin (-3), Fin 0], bias = [Fin 7],
              weight_mask = [False, True, False], grad = None\<rparr>,
           prune_example ! 1, prune_example ! 2]"
    by code_simp
  have s: "layer_prune topk_stable prune_example_targets Soft prune_example =
      Inr [\<lparr>lname = ''conv1'', weight = [Fin 1, Fin (-3), Fin 2], bias = [Fin 7],
              weight_mask = [False, True, False], grad = None\<rparr>,
           prune_example ! 1, prune_example ! 2]"
    by code_simp
  have w0: "weight (prune_example ! 0) = [Fin 1, Fin (-3), Fin 2]"
    by (simp add: prune_example_def)
  from layer_prune_selected_positions [OF h i t lo hi idx sel]
       layer_prune_selected_positions [OF s i t lo hi idx sel] w0
  show ?thesis
    unfolding h s by simp
qed

subsection \<open>Growing one layer\<close>

lemma grow_layer_skip:
  "t - int (length (filter (\<lambda>b. b) (weight_mask l))) < 0
   \<Longrightarrow> grow_layer topk (Whole t) l = Inr l"
  by (simp add: grow_layer_def Let_def)

text \<open>
  Claim C2. \<^verbatim>\<open>layer_grow\<close> selects the \<open>n_grow\<close> currently inactive weights of largest
  gradient magnitude. The code ranks all positions, active or not: in the example layer
  (weights 1 and 2, mask 1 and 0, gradients 5 and 1) with target 2, \<open>n_grow = 1\<close> and
  the selected position is the active position 0, whatever \<^verbatim>\<open>torch.topk\<close> does among
  equal elements (there are none). Its weight is zeroed, the inactive position 1 stays
  inactive, and the layer has one active weight where the target is 2.
\<close>

theorem layer_grow_selects_active_position:
  assumes "is_topk True [Fin 5, Fin 1] 1 (topk True [Fin 5, Fin 1] 1)"
  shows "topk True [Fin 5, Fin 1] 1 = [0]
   \<and> grow_layer topk (Whole 2) grow_example
     = Inr \<lparr>lname = ''fc'', weight = [Fin 0, Fin 2], bias = [Fin 0],
            weight_mask = [True, False], grad = Some [Fin 5, Fin 1]\<rparr>
   \<and> layer_grow topk (\<lambda>name. Whole 2) [grow_example]
     = Inr [\<lparr>lname = ''fc'', weight = [Fin 0, Fin 2], bias = [Fin 0],
             weight_mask = [True, False], grad = Some [Fin 5, Fin 1]\<rparr>]"
proof -
  let ?idx = "topk True [Fin 5, Fin 1] 1"
  note c = is_topkD [OF assms]
  from c(1) obtain p where idx: "?idx = [p]"
    by (cases ?idx) simp_all
  from c(3) [of p] idx have p: "p < 2" by simp
  have "p = 0"
  proof (rule ccontr)
    assume "p \<noteq> 0"
    with p have p1: "p = 1" by simp
    from c(4) [of 1 0] idx p1 show False by simp
  qed
  with idx have sel: "?idx = [0]" by simp
  have g: "grow_layer topk (Whole 2) grow_example
     = Inr \<lparr>lname = ''fc'', weight = [Fin 0, Fin 2], bias = [Fin 0],
            weight_mask = [True, False], grad = Some [Fin 5, Fin 1]\<rparr>"
    using sel by (simp add: grow_layer_def grow_example_def assign_at_def Let_def)
  then have "layer_grow topk (\<lambda>name. Whole 2) [grow_example]
     = Inr [\<lparr>lname = ''fc'', weight = [Fin 0, Fin 2], bias = [Fin 0],
             weight_mask = [True, False], grad = Some [Fin 5, Fin 1]\<rparr>]"
    by (simp add: layer_grow_def)
  with sel g show ?thesis by simp
qed

text \<open>The stable selection is one such \<open>topk\<close>.\<close>

theorem layer_grow_selects_active_position_witness:
  "is_topk True [Fin 5, Fin 1] 1 (topk_stable True [Fin 5, Fin 1] 1)
   \<and> topk_stable True [Fin 5, Fin 1] 1 = [0]
   \<and> grow_layer topk_stable (Whole 2) grow_example
     = Inr \<lparr>lname = ''fc'', weight = [Fin 0, Fin 2], bias = [Fin 0],
            weight_mask = [True, False], grad = Some [Fin 5, Fin 1]\<rparr>
   \<and> layer_grow topk_stable (\<lambda>name. Whole 2) [grow_example]
     = Inr [\<lparr>lname = ''fc'', weight = [Fin 0, Fin 2], bias = [Fin 0],
             weight_mask = [True, False], grad = Some [Fin 5, Fin 1]\<rparr>]"
proof -
  have h: "is_topk True [Fin 5, Fin 1] 1 (topk_stable True [Fin 5, Fin 1] 1)"
    by code_simp
  from layer_grow_selects_active_position [of topk_stable, OF h] h show ?thesis by simp
qed

subsection \<open>Upload cost\<close>

lemma ul_param_cost_fp32:
  "\<not> fp16 a \<Longrightarrow> ul_param_cost a sp m p = spec_ul_param_cost a sp m p"
  by (simp add: ul_param_cost_def spec_ul_param_cost_def)

lemma ul_param_cost_fp16_gap:
  "fp16 a \<Longrightarrow> ul_param_cost a sp m p = spec_ul_param_cost a sp m p + 16 * real_of_int m"
  by (simp add: ul_param_cost_def spec_ul_param_cost_def)

text \<open>
  Claim C3. The upload parameter cost is
  \<open>(1 - sparsity) * mask_size * width + (param_size - mask_size * 32)\<close> with width 16
  under fp16 and 32 otherwise. With fp16 enabled the code subtracts \<open>mask_size * 16\<close>
  instead: for a layer of 4 weights and 1 bias (\<open>mask_size = 4\<close>, \<open>param_size = 160\<close>) at
  sparsity 1/2 it charges 128 bits where the formula gives 64, and more than the 96 bits
  it charges for the same upload at full width.
\<close>

theorem ul_param_cost_fp16_differs:
  "ul_param_cost \<lparr>sparsity = 1/2, final_sparsity = 1/2, readjustment_ratio = 1/2,
       rate_decay_method = Constant, rate_decay_end = 10, rounds_between_readjustments = 10,
       pruning_begin = 9, pruning_interval = 10, remember_old = False, min_votes = 0,
       fp16 = True, prune_kind = Hard\<rparr> (1/2) 4 160 = 128
   \<and> spec_ul_param_cost \<lparr>sparsity = 1/2, final_sparsity = 1/2, readjustment_ratio = 1/2,
       rate_decay_method = Constant, rate_decay_end = 10, rounds_between_readjustments = 10,
       pruning_begin = 9, pruning_interval = 10, remember_old = False, min_votes = 0,
       fp16 = True, prune_kind = Hard\<rparr> (1/2) 4 160 = 64
   \<and> ul_param_cost \<lparr>sparsity = 1/2, final_sparsity = 1/2, readjustment_ratio = 1/2,
       rate_decay_method = Constant, rate_decay_end = 10, rounds_between_readjustments = 10,
       pruning_begin = 9, pruning_interval = 10, remember_old = False, min_votes = 0,
       fp16 = False, prune_kind = Hard\<rparr> (1/2) 4 160 = 96"
  by (simp add: ul_param_cost_def spec_ul_param_cost_def)

subsection \<open>Readjustment sparsities\<close>

lemma round_readjust_sparsities_eq:
  "round_readjust_sparsities a r =
     (sparsity a + (1 - sparsity a) * readjustment_ratio a, sparsity a)"
  by (simp add: round_readjust_sparsities_def train_readjust_sparsities_def
      round_train_sparsity_def)

text \<open>
  Claim C4. On a readjustment epoch the client prunes to the overshoot sparsity and grows
  back to the round's target sparsity, the linearly interpolated \<open>round_sparsity\<close>. The
  round loop computes \<open>round_sparsity\<close> but calls \<^verbatim>\<open>train\<close> without it, so the client
  grows back to \<^verbatim>\<open>args.sparsity\<close>: with initial sparsity 1/2, final sparsity 9/10 and
  \<open>rate_decay_end = 10\<close>, round 1 is a readjustment round, epoch 9 a readjustment epoch,
  the round's target is 27/50, and the client prunes to 3/4 and grows back to 1/2.
\<close>

theorem readjust_ignores_round_sparsity:
  "readjust \<lparr>sparsity = 1/2, final_sparsity = 9/10, readjustment_ratio = 1/2,
       rate_decay_method = Constant, rate_decay_end = 10, rounds_between_readjustments = 10,
       pruning_begin = 9, pruning_interval = 10, remember_old = False, min_votes = 0,
       fp16 = False, prune_kind = Hard\<rparr> 1 = Inr True
   \<and> readjust_epoch \<lparr>sparsity = 1/2, final_sparsity = 9/10, readjustment_ratio = 1/2,
       rate_decay_method = Constant, rate_decay_end = 10, rounds_between_readjustments = 10,
       pruning_begin = 9, pruning_interval = 10, remember_old = False, min_votes = 0,
       fp16 = False, prune_kind = Hard\<rparr> 9 True = Inr True
   \<and> round_sparsity \<lparr>sparsity = 1/2, final_sparsity = 9/10, readjustment_ratio = 1/2,
       rate_decay_method = Constant, rate_decay_end = 10, rounds_between_readjustments = 10,
       pruning_begin = 9, pruning_interval = 10, remember_old = False, min_votes = 0,
       fp16 = False, prune_kind = Hard\<rparr> 1 = Inr (27/50)
   \<and> round_readjust_sparsities \<lparr>sparsity = 1/2, final_sparsity = 9/10,
       readjustment_ratio = 1/2,
       rate_decay_method = Constant, rate_decay_end = 10, rounds_between_readjustments = 10,
       pruning_begin = 9, pruning_interval = 10, remember_old = False, min_votes = 0,
       fp16 = False, prune_kind = Hard\<rparr> 1 = (3/4, 1/2)"
  by (simp add: readjust_def readjust_epoch_def round_sparsity_def
      round_readjustment_ratio_def round_readjust_sparsities_eq)

subsection \<open>Names of a state dictionary\<close>

lemma last_weight: "last (a @ ''.weight'') = CHR ''t''" by simp
lemma last_bias: "last (a @ ''.bias'') = CHR ''s''" by simp
lemma last_wmask: "last (a @ ''.weight_mask'') = CHR ''k''" by simp

lemma key_neq [simp]:
  "a @ ''.weight'' \<noteq> b @ ''.bias''"
  "a @ ''.bias'' \<noteq> b @ ''.weight''"
  "a @ ''.weight'' \<noteq> b @ ''.weight_mask''"
  "a @ ''.weight_mask'' \<noteq> b @ ''.weight''"
  "a @ ''.bias'' \<noteq> b @ ''.weight_mask''"
  "a @ ''.weight_mask'' \<noteq> b @ ''.bias''"
  by (auto dest: arg_cong [where f = last])

lemma weight_mask_key: "(a @ ''.weight'') @ ''_mask'' = a @ ''.weight_mask''"
  by simp

lemma endswith_append: "endswith (a @ s) s"
  by (simp add: endswith_def suffix_def)

lemma not_endswith: "s \<noteq> [] \<Longrightarrow> last k \<noteq> last s \<Longrightarrow> \<not> endswith k s"
  by (auto simp: endswith_def suffix_def)

lemma endswith_keys [simp]:
  "endswith (a @ ''.weight_mask'') ''_mask''"
  "endswith (a @ ''.weight_mask'') ''mask''"
  "\<not> endswith (a @ ''.weight'') ''_mask''"
  "\<not> endswith (a @ ''.bias'') ''_mask''"
  "\<not> endswith (a @ ''.weight'') ''mask''"
  "\<not> endswith (a @ ''.bias'') ''mask''"
  "\<not> endswith (a @ ''.weight'') ''_orig''"
  "\<not> endswith (a @ ''.bias'') ''_orig''"
  "\<not> endswith (a @ ''.weight_mask'') ''_orig''"
  "needs_mask (a @ ''.weight'')"
  "\<not> needs_mask (a @ ''.bias'')"
  "\<not> needs_mask (a @ ''.weight_mask'')"
proof -
  have "a @ ''.weight_mask'' = (a @ ''.weight'') @ ''_mask''" by simp
  then show "endswith (a @ ''.weight_mask'') ''_mask''" by (metis endswith_append)
  have "a @ ''.weight_mask'' = (a @ ''.weight_'') @ ''mask''" by simp
  then show "endswith (a @ ''.weight_mask'') ''mask''" by (metis endswith_append)
  have "a @ ''.weight'' = (a @ ''.'') @ ''weight''" by simp
  then show "needs_mask (a @ ''.weight'')" unfolding needs_mask_def by (metis endswith_append)
qed (simp_all add: needs_mask_def not_endswith)

lemma keys_state_dict': "map fst (state_dict n) = concat (map layer_keys n)"
  by (induction n) (simp_all add: state_dict_def layer_items_def layer_keys_def)

lemma map_of_state_dict_notin:
  "name \<notin> lname ` set n \<Longrightarrow>
   map_of (state_dict n) (name @ ''.weight'') = None
   \<and> map_of (state_dict n) (name @ ''.bias'') = None
   \<and> map_of (state_dict n) (name @ ''.weight_mask'') = None"
  by (induction n) (auto simp: state_dict_def layer_items_def)

lemma map_of_state_dict:
  assumes "distinct (map lname n)" "l \<in> set n"
  shows "map_of (state_dict n) (lname l @ ''.weight'') = Some (FloatT (weight l))
    \<and> map_of (state_dict n) (lname l @ ''.bias'') = Some (FloatT (bias l))
    \<and> map_of (state_dict n) (lname l @ ''.weight_mask'') = Some (BoolT (weight_mask l))"
  using assms
proof (induction n)
  case Nil
  then show ?case by simp
next
  case (Cons x n)
  show ?case
  proof (cases "l = x")
    case True
    then show ?thesis by (simp add: state_dict_def layer_items_def)
  next
    case False
    with Cons.prems have l: "l \<in> set n" by simp
    then have "lname l \<in> set (map lname n)" by (rule imageI [of l "set n" lname, folded set_map])
    moreover from Cons.prems(1) have "lname x \<notin> set (map lname n)" by simp
    ultimately have ne: "lname l \<noteq> lname x" by metis
    from Cons.IH [OF _ l] Cons.prems(1) ne show ?thesis
      by (simp add: state_dict_def layer_items_def)
  qed
qed


subsection \<open>Applying the local mask\<close>

lemma apply_mask_fields [simp]:
  "lname (apply_mask pt l) = lname l" "bias (apply_mask pt l) = bias l"
  "weight_mask (apply_mask pt l) = weight_mask l" "grad (apply_mask pt l) = grad l"
  by (simp_all add: apply_mask_def)

lemma apply_mask_length:
  "length (weight_mask l) = length (weight l) \<Longrightarrow>
   length (weight (apply_mask pt l)) = length (weight l)"
  by (simp add: apply_mask_def)

lemma masked_copy_self:
  "length m = numel t \<Longrightarrow> masked_copy m t t = Inr t"
  by (cases t) (auto simp: masked_copy_def intro!: nth_equalityI)

lemma copy_into_self: "copy_into t t = Inr t"
  by (cases t) simp_all

lemma zero_outside_idem:
  "zero_outside m (zero_outside m t) = zero_outside m t"
  by (cases t) (auto intro!: nth_equalityI)

lemma map_of_target:
  assumes "distinct (map lname n)" "l \<in> set n"
  shows "map_of (state_dict (map (apply_mask pt) n)) (lname l @ ''.weight'')
           = Some (FloatT (weight (apply_mask pt l)))"
    and "map_of (state_dict (map (apply_mask pt) n)) (lname l @ ''.bias'')
           = Some (FloatT (bias l))"
    and "map_of (state_dict (map (apply_mask pt) n)) (lname l @ ''.weight_mask'')
           = Some (BoolT (weight_mask l))"
proof -
  have d: "distinct (map lname (map (apply_mask pt) n))"
    using assms(1) by (simp add: comp_def)
  have m: "apply_mask pt l \<in> set (map (apply_mask pt) n)" using assms(2) by simp
  from map_of_state_dict [OF d m] show
    "map_of (state_dict (map (apply_mask pt) n)) (lname l @ ''.weight'')
           = Some (FloatT (weight (apply_mask pt l)))"
    "map_of (state_dict (map (apply_mask pt) n)) (lname l @ ''.bias'')
           = Some (FloatT (bias l))"
    "map_of (state_dict (map (apply_mask pt) n)) (lname l @ ''.weight_mask'')
           = Some (BoolT (weight_mask l))"
    by simp_all
qed

lemma reset_step_mask_key:
  "reset_step pt Local Local Local (a @ ''.weight_mask'') S = Inr S"
  by (simp add: reset_step_def)

lemma reset_step_bias:
  assumes inv: "reset_inv pt n S" and d: "distinct (map lname n)" and l: "l \<in> set n"
  shows "\<exists>S'. reset_step pt Local Local Local (lname l @ ''.bias'') S = Inr S'
      \<and> reset_inv pt n S'
      \<and> fst ` set (new_state S') = insert (lname l @ ''.bias'') (fst ` set (new_state S))"
proof -
  let ?k = "lname l @ ''.bias''"
  from inv have "map_of (local_state S) ?k = map_of (state_dict n) ?k
      \<or> map_of (local_state S) ?k = map_of (state_dict (map (apply_mask pt) n)) ?k"
    by (simp add: reset_inv_def)
  with map_of_state_dict [OF d l] map_of_target(2) [OF d l, of pt]
  have ls: "map_of (local_state S) ?k = Some (FloatT (bias l))" by auto
  let ?S' = "\<lparr>local_state = AList.update ?k (FloatT (bias l)) (local_state S),
              new_state = AList.update ?k (FloatT (bias l)) (new_state S),
              mask_changed = mask_changed S\<rparr>"
  have step: "reset_step pt Local Local Local ?k S = Inr ?S'"
    using ls by (simp add: reset_step_def source_lookup_def)
  have "reset_inv pt n ?S'"
    using inv ls map_of_target(2) [OF d l, of pt]
    by (auto simp: reset_inv_def update_conv')
  moreover have "fst ` set (new_state ?S') = insert ?k (fst ` set (new_state S))"
    by (simp add: dom_update)
  ultimately show ?thesis using step by blast
qed

lemma reset_step_weight:
  assumes inv: "reset_inv pt n S" and d: "distinct (map lname n)" and l: "l \<in> set n"
    and len: "length (weight_mask l) = length (weight l)"
  shows "\<exists>S'. reset_step pt Local Local Local (lname l @ ''.weight'') S = Inr S'
      \<and> reset_inv pt n S'
      \<and> fst ` set (new_state S') =
          insert (lname l @ ''.weight'') (insert (lname l @ ''.weight_mask'')
            (fst ` set (new_state S)))"
proof -
  let ?k = "lname l @ ''.weight''" and ?mk = "lname l @ ''.weight_mask''"
  let ?T = "state_dict (map (apply_mask pt) n)"
  note L = map_of_state_dict [OF d l] and T = map_of_target [OF d l, of pt]
  from inv have "map_of (local_state S) ?mk = map_of (state_dict n) ?mk
      \<or> map_of (local_state S) ?mk = map_of ?T ?mk"
    by (simp add: reset_inv_def)
  with L T(3) have lm: "map_of (local_state S) ?mk = Some (BoolT (weight_mask l))" by auto
  from inv have "map_of (local_state S) ?k = map_of (state_dict n) ?k
      \<or> map_of (local_state S) ?k = map_of ?T ?k"
    by (simp add: reset_inv_def)
  with L T(1) obtain w where lw: "map_of (local_state S) ?k = Some (FloatT w)"
    and w: "w = weight l \<or> w = weight (apply_mask pt l)" by auto
  from w len have lenw: "length (weight_mask l) = length w"
    by (auto simp: apply_mask_length)
  have w2: "(if pt = Hard then zero_outside (weight_mask l) (FloatT w) else FloatT w)
      = FloatT (weight (apply_mask pt l))"
    using w by (auto simp: apply_mask_def intro!: nth_equalityI)
  let ?w' = "FloatT (weight (apply_mask pt l))" and ?m' = "BoolT (weight_mask l)"
  let ?S' = "\<lparr>local_state = AList.update ?mk ?m' (AList.update ?k ?w' (local_state S)),
              new_state = AList.update ?mk ?m' (AList.update ?k ?w' (new_state S)),
              mask_changed = (mask_changed S \<or> bools ?m' \<noteq> bools ?m')\<rparr>"
  have step: "reset_step pt Local Local Local ?k S = Inr ?S'"
    using lw lm lenw w2
    by (simp add: reset_step_def source_lookup_def masked_copy_self Let_def)
  have "reset_inv pt n ?S'"
    using inv T by (auto simp: reset_inv_def update_conv')
  moreover have "fst ` set (new_state ?S') = insert ?k (insert ?mk (fst ` set (new_state S)))"
    by (auto simp: dom_update)
  ultimately show ?thesis using step by blast
qed


lemma reset_fold_layers:
  assumes d: "distinct (map lname n)"
  shows "set ls \<subseteq> set n \<Longrightarrow> \<forall>l \<in> set ls. length (weight_mask l) = length (weight l)
    \<Longrightarrow> reset_inv pt n S
    \<Longrightarrow> \<exists>S'. foldE (reset_step pt Local Local Local) (concat (map layer_keys ls)) S = Inr S'
          \<and> reset_inv pt n S'
          \<and> fst ` set (new_state S')
              = fst ` set (new_state S) \<union> set (concat (map layer_keys ls))"
proof (induction ls arbitrary: S)
  case Nil
  then show ?case by simp
next
  case (Cons l ls)
  from Cons.prems have l: "l \<in> set n" and len: "length (weight_mask l) = length (weight l)"
    by simp_all
  from reset_step_weight [OF Cons.prems(3) d l len] obtain S1 where
    s1: "reset_step pt Local Local Local (lname l @ ''.weight'') S = Inr S1"
    and i1: "reset_inv pt n S1"
    and k1: "fst ` set (new_state S1) =
          insert (lname l @ ''.weight'') (insert (lname l @ ''.weight_mask'')
            (fst ` set (new_state S)))" by blast
  from reset_step_bias [OF i1 d l] obtain S2 where
    s2: "reset_step pt Local Local Local (lname l @ ''.bias'') S1 = Inr S2"
    and i2: "reset_inv pt n S2"
    and k2: "fst ` set (new_state S2) = insert (lname l @ ''.bias'') (fst ` set (new_state S1))"
    by blast
  from Cons.prems have "set ls \<subseteq> set n"
    "\<forall>l \<in> set ls. length (weight_mask l) = length (weight l)" by simp_all
  from Cons.IH [OF this i2] obtain S' where
    f: "foldE (reset_step pt Local Local Local) (concat (map layer_keys ls)) S2 = Inr S'"
    and i: "reset_inv pt n S'"
    and k: "fst ` set (new_state S')
              = fst ` set (new_state S2) \<union> set (concat (map layer_keys ls))" by blast
  have "foldE (reset_step pt Local Local Local) (concat (map layer_keys (l # ls))) S = Inr S'"
    using s1 s2 f by (simp add: layer_keys_def reset_step_mask_key)
  moreover have "fst ` set (new_state S')
      = fst ` set (new_state S) \<union> set (concat (map layer_keys (l # ls)))"
    unfolding k k2 k1 by (auto simp: layer_keys_def)
  ultimately show ?case using i by blast
qed

lemma mapE_map: "(\<And>x. x \<in> set xs \<Longrightarrow> f x = Inr (g x)) \<Longrightarrow> mapE f xs = Inr (map g xs)"
  by (induction xs) simp_all

lemma sparsity_of_state_dict_returns:
  "n \<noteq> [] \<Longrightarrow> \<exists>s. sparsity_of f32 (state_dict n) = Inr s"
proof (cases n)
  case Nil
  then show "n \<noteq> [] \<Longrightarrow> ?thesis" by simp
next
  case (Cons l ls)
  then have "(lname l @ ''.weight_mask'', BoolT (weight_mask l)) \<in> set (state_dict n)"
    by (simp add: state_dict_def layer_items_def)
  then have "\<exists>e \<in> set (state_dict n). endswith (fst e) ''mask''"
    by (rule rev_bexI) simp
  then have "filter (\<lambda>e. endswith (fst e) ''mask'') (state_dict n) \<noteq> []"
    by (simp add: filter_empty_conv)
  then show ?thesis by (simp add: sparsity_of_def Let_def)
qed

lemma reset_weights_local:
  assumes ne: "n \<noteq> []" and d: "distinct (map lname n)"
    and len: "\<forall>l \<in> set n. length (weight_mask l) = length (weight l)"
  shows "reset_weights f32 n None False False pt = Inr (map (apply_mask pt) n, False)"
proof -
  let ?S0 = "\<lparr>local_state = state_dict n, new_state = [], mask_changed = False\<rparr>"
  have i0: "reset_inv pt n ?S0" by (simp add: reset_inv_def)
  from reset_fold_layers [OF d subset_refl len i0] obtain S where
    f: "foldE (reset_step pt Local Local Local) (concat (map layer_keys n)) ?S0 = Inr S"
    and i: "reset_inv pt n S"
    and k: "fst ` set (new_state S) = set (concat (map layer_keys n))" by auto
  from sparsity_of_state_dict_returns [OF ne] obtain sp where
    sp: "sparsity_of f32 (state_dict n) = Inr sp" by blast
  have keys: "list_all (\<lambda>k. k \<in> set (map fst (state_dict n))) (map fst (new_state S))"
    using k by (simp add: list_all_iff keys_state_dict' del: set_concat)
  have "load_layer (new_state S) l = Inr (apply_mask pt l)" if l: "l \<in> set n" for l
  proof -
    have kw: "lname l @ ''.weight'' \<in> fst ` set (new_state S)"
      and kb: "lname l @ ''.bias'' \<in> fst ` set (new_state S)"
      and km: "lname l @ ''.weight_mask'' \<in> fst ` set (new_state S)"
      unfolding k using l by (auto simp: layer_keys_def)
    from i have v: "\<And>k v. map_of (new_state S) k = Some v
       \<Longrightarrow> map_of (state_dict (map (apply_mask pt) n)) k = Some v"
      by (simp add: reset_inv_def)
    note T = map_of_target [OF d l, of pt]
    from kw obtain vw where vw: "map_of (new_state S) (lname l @ ''.weight'') = Some vw"
      by (metis domD dom_map_of_conv_image_fst)
    from kb obtain vb where vb: "map_of (new_state S) (lname l @ ''.bias'') = Some vb"
      by (metis domD dom_map_of_conv_image_fst)
    from km obtain vm where vm: "map_of (new_state S) (lname l @ ''.weight_mask'') = Some vm"
      by (metis domD dom_map_of_conv_image_fst)
    from v [OF vw] v [OF vb] v [OF vm] T
    have "vw = FloatT (weight (apply_mask pt l))" "vb = FloatT (bias l)"
      "vm = BoolT (weight_mask l)" by simp_all
    with vw vb vm len l show ?thesis
      by (simp add: load_layer_def apply_mask_length)
  qed
  then have "mapE (load_layer (new_state S)) n = Inr (map (apply_mask pt) n)"
    by (rule mapE_map)
  with keys have ld: "load_state_dict (new_state S) n = Inr (map (apply_mask pt) n)"
    by (simp add: load_state_dict_def)
  from i have "\<not> mask_changed S" by (simp add: reset_inv_def)
  with f sp ld show ?thesis
    by (simp add: reset_weights_def source_items_def keys_state_dict')
qed


text \<open>
  Claim C10. The call \<^verbatim>\<open>reset_weights()\<close> with no global state and both flags false
  returns \<^verbatim>\<open>mask_changed = False\<close> and leaves every mask as it was; a weight changes
  only at a masked-out position, where hard pruning sets it to 0; no mask download is
  charged for such a call. (The model has at least one child, as every network of the
  repository has: without any mask \<^verbatim>\<open>sparsity\<close> divides by zero. Names are distinct
  and a mask has the shape of its weight, as \<^verbatim>\<open>initialize_mask\<close> makes them.)
\<close>

theorem reset_weights_apply_local_mask:
  assumes "n \<noteq> []" and "distinct (map lname n)"
    and "\<forall>l \<in> set n. length (weight_mask l) = length (weight l)"
  shows "\<exists>n'. reset_weights f32 n None False False pt = Inr (n', False)
      \<and> dl_mask_cost False (fst (init_param_sizes n)) = 0
      \<and> length n' = length n
      \<and> (\<forall>i < length n.
            weight_mask (n' ! i) = weight_mask (n ! i)
          \<and> lname (n' ! i) = lname (n ! i) \<and> bias (n' ! i) = bias (n ! i)
          \<and> grad (n' ! i) = grad (n ! i)
          \<and> length (weight (n' ! i)) = length (weight (n ! i))
          \<and> (\<forall>p < length (weight (n ! i)).
                weight (n' ! i) ! p =
                  (if pt = Hard \<and> \<not> weight_mask (n ! i) ! p then Fin 0
                   else weight (n ! i) ! p)))"
proof -
  have r: "reset_weights f32 n None False False pt = Inr (map (apply_mask pt) n, False)"
    using assms by (rule reset_weights_local)
  have "length (weight (apply_mask pt (n ! i))) = length (weight (n ! i))
      \<and> (\<forall>p < length (weight (n ! i)).
            weight (apply_mask pt (n ! i)) ! p =
              (if pt = Hard \<and> \<not> weight_mask (n ! i) ! p then Fin 0 else weight (n ! i) ! p))"
    if "i < length n" for i
  proof -
    from that assms(3) have "length (weight_mask (n ! i)) = length (weight (n ! i))"
      by simp
    then show ?thesis by (simp add: apply_mask_def)
  qed
  with r show ?thesis by (simp add: dl_mask_cost_def)
qed

theorem reset_weights_apply_local_mask_witness:
  "\<exists>n'. reset_weights (\<lambda>r. r) reset_example None False False Hard = Inr (n', False)
     \<and> weight_mask (n' ! 0) = [True, False, True]
     \<and> weight (n' ! 0) ! 0 = Fin 1 \<and> weight (n' ! 0) ! 1 = Fin 0 \<and> weight (n' ! 0) ! 2 = Fin 2"
proof -
  have a: "reset_example \<noteq> []" "distinct (map lname reset_example)"
    "\<forall>l \<in> set reset_example. length (weight_mask l) = length (weight l)"
    by (simp_all add: reset_example_def)
  from reset_weights_apply_local_mask [OF a, where pt = Hard and ?f32.0 = "\<lambda>r. r"]
  obtain n' where
    r: "reset_weights (\<lambda>r. r) reset_example None False False Hard = Inr (n', False)"
    and e: "\<forall>i < length reset_example.
            weight_mask (n' ! i) = weight_mask (reset_example ! i)
          \<and> (\<forall>p < length (weight (reset_example ! i)).
                weight (n' ! i) ! p =
                  (if Hard = Hard \<and> \<not> weight_mask (reset_example ! i) ! p then Fin 0
                   else weight (reset_example ! i) ! p))"
    by blast
  have i: "0 < length reset_example" by (simp add: reset_example_def)
  from e i have m: "weight_mask (n' ! 0) = weight_mask (reset_example ! 0)"
    and w: "\<forall>p < length (weight (reset_example ! 0)).
                weight (n' ! 0) ! p =
                  (if \<not> weight_mask (reset_example ! 0) ! p then Fin 0
                   else weight (reset_example ! 0) ! p)"
    by simp_all
  have l: "length (weight (reset_example ! 0)) = 3" by (simp add: reset_example_def)
  from w l have "weight (n' ! 0) ! 0 = Fin 1" "weight (n' ! 0) ! 1 = Fin 0"
    "weight (n' ! 0) ! 2 = Fin 2"
    by (simp_all add: reset_example_def)
  with r m show ?thesis by (auto simp: reset_example_def)
qed


subsection \<open>Loops that may fail\<close>

text \<open>A property that every successful step preserves holds after the loop.\<close>

lemma foldE_invariant:
  assumes "foldE f xs s = Inr s'" and "P s"
    and "\<And>x t t'. x \<in> set xs \<Longrightarrow> P t \<Longrightarrow> f x t = Inr t' \<Longrightarrow> P t'"
  shows "P s'"
  using assms
proof (induction xs arbitrary: s)
  case Nil
  then show ?case by simp
next
  case (Cons x xs)
  from Cons.prems(1) obtain t where t: "f x s = Inr t" and r: "foldE f xs t = Inr s'"
    by (auto split: sum.splits)
  from Cons.prems(3) [OF _ Cons.prems(2) t] have p: "P t" by simp
  show ?case
  proof (rule Cons.IH [OF r p])
    fix y u u'
    assume "y \<in> set xs" "P u" "f y u = Inr u'"
    then show "P u'" by (metis Cons.prems(3) list.set_intros(2))
  qed
qed

lemma fold_invariant:
  assumes "P s" and "\<And>x t. x \<in> set xs \<Longrightarrow> P t \<Longrightarrow> P (f x t)"
  shows "P (fold f xs s)"
  using assms by (induction xs arbitrary: s) simp_all

subsection \<open>Keys of the accumulators\<close>

text \<open>
  The accumulators get their keys when they are initialised; adding a client and the
  reduction only write under keys that are there.
\<close>

lemma keys_update: "keys (AList.update k v d) = insert k (keys d)"
  by (simp add: keys_def dom_update)

lemma keys_update_in: "k \<in> keys d \<Longrightarrow> keys (AList.update k v d) = keys d"
  by (auto simp: keys_update)

lemma map_of_in_keys: "map_of d k = Some v \<Longrightarrow> k \<in> keys d"
  by (simp add: keys_def) (metis domI dom_map_of_conv_image_fst)

lemma in_keys_map_of: "k \<in> keys d \<Longrightarrow> \<exists>v. map_of d k = Some v"
  by (simp add: keys_def) (metis domD dom_map_of_conv_image_fst)

lemma inplace_length: "inplace f xs ys = Inr r \<Longrightarrow> length r = length xs"
  by (auto simp: inplace_def split: if_splits)

lemma add_to_Inr:
  assumes "add_to d name arg = Inr d'"
  shows "keys d' = keys d"
    and "distinct (map fst d) \<Longrightarrow> distinct (map fst d')"
    and "\<And>k. k \<noteq> name \<Longrightarrow> map_of d' k = map_of d k"
    and "\<exists>t v r. map_of d name = Some t \<and> arg = Inr v
           \<and> inplace fadd (floats t) v = Inr r \<and> length r = numel t
           \<and> map_of d' name = Some (FloatT r)"
proof -
  from assms obtain t v r where t: "map_of d name = Some t" and v: "arg = Inr v"
    and l: "inplace fadd (floats t) v = Inr r"
    and d': "d' = AList.update name (FloatT r) d"
    by (auto simp: add_to_def bindE_eq_Inr split: option.splits)
  from inplace_length [OF l] have lr: "length r = numel t" by (cases t) simp_all
  from t have "name \<in> keys d" by (rule map_of_in_keys)
  then show "keys d' = keys d" by (simp add: d' keys_update_in)
  show "distinct (map fst d) \<Longrightarrow> distinct (map fst d')" by (simp add: d' distinct_update)
  show "\<And>k. k \<noteq> name \<Longrightarrow> map_of d' k = map_of d k" by (simp add: d' update_conv')
  show "\<exists>t v r. map_of d name = Some t \<and> arg = Inr v
           \<and> inplace fadd (floats t) v = Inr r \<and> length r = numel t
           \<and> map_of d' name = Some (FloatT r)"
    using t v l lr by (simp add: d' update_conv')
qed

lemma client_step_keys:
  assumes "client_step a gp ts M e A = Inr A'"
  shows "acc_keys A' = acc_keys A \<and> (acc_distinct A \<longrightarrow> acc_distinct A')"
proof (cases e)
  case (Pair name cl_param)
  show ?thesis
  proof (cases "map_of M name")
    case None
    with assms Pair obtain ap where
      "add_to (aggregated_params A) name (Inr (scaled ts (floats cl_param))) = Inr ap"
      and "A' = A\<lparr>aggregated_params := ap\<rparr>"
      by (auto simp: client_step_def bindE_eq_Inr)
    with add_to_Inr(1,2) [OF this(1)] show ?thesis
      by (simp add: acc_keys_def acc_distinct_def)
  next
    case (Some cl_mask)
    with assms Pair obtain sv_mask ap apfm am where
      ap: "add_to (aggregated_params A) name
             (tmul (scaled ts (floats cl_param)) (floats cl_mask)) = Inr ap"
      and apfm: "add_to (aggregated_params_for_mask A) name
             (tmul (scaled ts (floats cl_param)) (floats cl_mask)) = Inr apfm"
      and am: "add_to (aggregated_masks A) name (Inr (scaled ts (floats cl_mask))) = Inr am"
      and rest: "(if remember_old a
               then
                 bindE (masked_zero sv_mask cl_mask) (\<lambda>sv_mask'.
                 case map_of gp name of
                   None \<Rightarrow> Inl KeyError
                 | Some sv_param \<Rightarrow>
                     bindE (add_to apfm name
                              (tmul (scaled ts (floats sv_param)) (floats sv_mask')))
                       (\<lambda>apfm'.
                     bindE (add_to am name (Inr (scaled ts (floats sv_mask')))) (\<lambda>am'.
                     Inr \<lparr>aggregated_params = ap, aggregated_params_for_mask = apfm',
                          aggregated_masks = am'\<rparr>)))
               else Inr \<lparr>aggregated_params = ap, aggregated_params_for_mask = apfm,
                         aggregated_masks = am\<rparr>) = Inr A'"
      by (auto simp: client_step_def bindE_eq_Inr split: option.splits)
    note k = add_to_Inr(1,2) [OF ap] add_to_Inr(1,2) [OF apfm] add_to_Inr(1,2) [OF am]
    show ?thesis
    proof (cases "remember_old a")
      case False
      with rest k show ?thesis by (auto simp: acc_keys_def acc_distinct_def)
    next
      case True
      with rest obtain sv_mask' sv_param apfm' am' where
        a1: "add_to apfm name (tmul (scaled ts (floats sv_param)) (floats sv_mask')) = Inr apfm'"
        and a2: "add_to am name (Inr (scaled ts (floats sv_mask'))) = Inr am'"
        and A': "A' = \<lparr>aggregated_params = ap, aggregated_params_for_mask = apfm',
                          aggregated_masks = am'\<rparr>"
        by (auto simp: bindE_eq_Inr split: option.splits)
      from k add_to_Inr(1,2) [OF a1] add_to_Inr(1,2) [OF a2] show ?thesis
        by (auto simp: A' acc_keys_def acc_distinct_def)
    qed
  qed
qed

lemma accumulate_step_keys:
  assumes "client_accumulate bf16 a gp c A = Inr A'"
  shows "acc_keys A' = acc_keys A \<and> (acc_distinct A \<longrightarrow> acc_distinct A')"
proof -
  obtain ts cl_params where c: "c = (ts, cl_params)" by (cases c)
  obtain W M where dc: "decode_client bf16 a cl_params = (W, M)"
    by (cases "decode_client bf16 a cl_params")
  from assms c dc have f: "foldE (client_step a gp ts M) W A = Inr A'"
    by (simp add: client_accumulate_def)
  show ?thesis
    by (rule foldE_invariant [OF f, where P = "\<lambda>B. acc_keys B = acc_keys A
          \<and> (acc_distinct A \<longrightarrow> acc_distinct B)"])
       (auto dest: client_step_keys)
qed

lemma init_step_keys:
  "acc_distinct A \<Longrightarrow> acc_distinct (init_step e A)"
  by (cases e) (auto simp: init_step_def acc_distinct_def distinct_update)

lemma init_accumulators_distinct: "acc_distinct (init_accumulators gp)"
  unfolding init_accumulators_def
  by (rule fold_invariant) (simp_all add: acc_distinct_def init_step_keys [unfolded acc_distinct_def])

lemma init_fold_keys:
  "acc_keys (fold init_step gp A) =
     (keys (aggregated_params A) \<union> {k \<in> keys gp. \<not> endswith k ''_mask''},
      keys (aggregated_params_for_mask A) \<union> {k \<in> keys gp. \<not> endswith k ''_mask''},
      keys (aggregated_masks A) \<union> {k \<in> keys gp. \<not> endswith k ''_mask'' \<and> needs_mask k})"
proof (induction gp arbitrary: A)
  case Nil
  then show ?case by (simp add: acc_keys_def keys_def)
next
  case (Cons e gp)
  obtain k v where e: "e = (k, v)" by (cases e)
  have k: "keys (e # gp) = insert k (keys gp)" by (simp add: e keys_def)
  show ?case
    unfolding fold_simps Cons.IH k
    by (auto simp: e init_step_def keys_update)
qed

lemma init_accumulators_keys:
  "acc_keys (init_accumulators gp) =
     ({k \<in> keys gp. \<not> endswith k ''_mask''},
      {k \<in> keys gp. \<not> endswith k ''_mask''},
      {k \<in> keys gp. \<not> endswith k ''_mask'' \<and> needs_mask k})"
  by (simp add: init_accumulators_def init_fold_keys) (simp add: keys_def)

lemma init_accumulators_key_sets:
  "keys (aggregated_params (init_accumulators gp)) = {k \<in> keys gp. \<not> endswith k ''_mask''}"
  "keys (aggregated_params_for_mask (init_accumulators gp))
     = {k \<in> keys gp. \<not> endswith k ''_mask''}"
  "keys (aggregated_masks (init_accumulators gp))
     = {k \<in> keys gp. \<not> endswith k ''_mask'' \<and> needs_mask k}"
  using init_accumulators_keys [of gp] by (simp_all add: acc_keys_def)

lemma accumulate_keys:
  assumes "accumulate bf16 a gp clients = Inr A"
  shows "acc_keys A = acc_keys (init_accumulators gp)" and "acc_distinct A"
proof -
  have "acc_keys A = acc_keys (init_accumulators gp)
      \<and> (acc_distinct (init_accumulators gp) \<longrightarrow> acc_distinct A)"
    by (rule foldE_invariant [OF assms [unfolded accumulate_def],
          where P = "\<lambda>B. acc_keys B = acc_keys (init_accumulators gp)
            \<and> (acc_distinct (init_accumulators gp) \<longrightarrow> acc_distinct B)"])
       (auto dest: accumulate_step_keys)
  then show "acc_keys A = acc_keys (init_accumulators gp)" and "acc_distinct A"
    by (simp_all add: init_accumulators_distinct)
qed

subsection \<open>The reduction loop\<close>

lemma nan_to_num_idem [simp]: "nan_to_num (nan_to_num x) = nan_to_num x"
  by (cases x) simp_all

lemma reduce_masked_Inr:
  assumes "reduce_masked a p pfm m = Inr (p2, pfm2, m3)"
  shows "pfm2 = p2"
    and "length p2 = length p"
    and "\<exists>p1. p2 = map nan_to_num p1"
    and "m3 = map nan_to_num
           (map2 fdiv (map (threshold (real_of_int (min_votes a)) (Fin 0)) m)
                      (map (threshold (real_of_int (min_votes a)) (Fin 0)) m))"
  using assms
  by (auto simp: reduce_masked_def Let_def bindE_eq_Inr tdiv_def dest: inplace_length)

lemma nan_to_num_finite: "\<exists>r. nan_to_num x = Fin r"
  by (cases x) simp_all

lemma dropped_vote:
  "fle x t \<Longrightarrow> nan_to_num (fdiv (threshold t (Fin 0) x) (threshold t (Fin 0) x)) = Fin 0"
  by (simp add: threshold_def inf_times_def)

lemma same_entry_refl [simp]: "same_entry A A name"
  by (simp add: same_entry_def)

lemma same_entry_trans: "same_entry A B name \<Longrightarrow> same_entry B C name \<Longrightarrow> same_entry A C name"
  by (simp add: same_entry_def)

lemma reduced_same: "reduced_entry a A B name \<Longrightarrow> same_entry B C name \<Longrightarrow> reduced_entry a A C name"
  by (simp add: same_entry_def reduced_entry_def)

lemma same_reduced: "same_entry A B name \<Longrightarrow> reduced_entry a B C name \<Longrightarrow> reduced_entry a A C name"
  by (simp add: same_entry_def reduced_entry_def)

lemma reduce_step_Inr:
  assumes "reduce_step a t k A = Inr B"
  shows "acc_keys B = acc_keys A"
    and "\<And>name. name \<noteq> k \<Longrightarrow> same_entry A B name"
    and "k \<in> keys (aggregated_masks A) \<Longrightarrow> reduced_entry a A B k"
proof -
  from assms obtain p where p: "map_of (aggregated_params A) k = Some p"
    by (auto simp: reduce_step_def split: option.splits)
  then have kp: "k \<in> keys (aggregated_params A)" by (rule map_of_in_keys)
  show "acc_keys B = acc_keys A"
  proof (cases "map_of (aggregated_masks A) k")
    case None
    with assms p kp show ?thesis
      by (auto simp: reduce_step_def acc_keys_def keys_update_in)
  next
    case (Some m)
    then have "k \<in> keys (aggregated_masks A)" by (rule map_of_in_keys)
    moreover from assms p Some obtain pfm where
      "map_of (aggregated_params_for_mask A) k = Some pfm"
      by (auto simp: reduce_step_def split: option.splits)
    then have "k \<in> keys (aggregated_params_for_mask A)" by (rule map_of_in_keys)
    ultimately show ?thesis using assms p kp Some
      by (auto simp: reduce_step_def acc_keys_def keys_update_in bindE_eq_Inr
          split: option.splits)
  qed
  show "same_entry A B name" if "name \<noteq> k" for name
    using assms p that
    by (auto simp: reduce_step_def same_entry_def update_conv' bindE_eq_Inr
        split: option.splits)
  show "reduced_entry a A B k" if "k \<in> keys (aggregated_masks A)"
  proof -
    from in_keys_map_of [OF that] obtain m where m: "map_of (aggregated_masks A) k = Some m"
      by blast
    with assms p obtain pfm p2 pfm2 m3 where
      pfm: "map_of (aggregated_params_for_mask A) k = Some pfm"
      and r: "reduce_masked a (floats p) (floats pfm) (floats m) = Inr (p2, pfm2, m3)"
      and B: "B = \<lparr>aggregated_params = AList.update k (FloatT p2) (aggregated_params A),
                 aggregated_params_for_mask =
                   AList.update k (FloatT pfm2) (aggregated_params_for_mask A),
                 aggregated_masks = AList.update k (FloatT m3) (aggregated_masks A)\<rparr>"
      by (auto simp: reduce_step_def bindE_eq_Inr split: option.splits)
    from reduce_masked_Inr(1) [OF r] have e: "pfm2 = p2" .
    show ?thesis
      unfolding reduced_entry_def using p pfm m r
      by (auto simp: B e update_conv')
  qed
qed

lemma reduce_step_distinct:
  assumes "reduce_step a t k A = Inr B" and "acc_distinct A"
  shows "acc_distinct B"
  using assms
  by (auto simp: reduce_step_def acc_distinct_def distinct_update bindE_eq_Inr
      split: option.splits)

lemma reduce_fold_distinct:
  assumes "foldE (reduce_step a t) ks A = Inr B" and "acc_distinct A"
  shows "acc_distinct B"
  by (rule foldE_invariant [where P = acc_distinct, OF assms]) (rule reduce_step_distinct)

lemma reduce_fold:
  assumes "distinct ks"
  shows "foldE (reduce_step a t) ks A = Inr B \<Longrightarrow>
      acc_keys B = acc_keys A
    \<and> (\<forall>name. name \<notin> set ks \<longrightarrow> same_entry A B name)
    \<and> (\<forall>name \<in> set ks. name \<in> keys (aggregated_masks A) \<longrightarrow> reduced_entry a A B name)"
  using assms
proof (induction ks arbitrary: A)
  case Nil
  then show ?case by simp
next
  case (Cons k ks)
  from Cons.prems(1) obtain C where st: "reduce_step a t k A = Inr C"
    and f: "foldE (reduce_step a t) ks C = Inr B"
    by (auto split: sum.splits)
  from Cons.prems(2) have d: "distinct ks" and nk: "k \<notin> set ks" by simp_all
  note s = reduce_step_Inr [OF st] and ih = Cons.IH [OF f d]
  have km: "keys (aggregated_masks C) = keys (aggregated_masks A)"
    using s(1) by (simp add: acc_keys_def)
  have "acc_keys B = acc_keys A" using s(1) ih by simp
  moreover have "same_entry A B name" if "name \<notin> set (k # ks)" for name
  proof -
    from that have "name \<noteq> k" "name \<notin> set ks" by simp_all
    with s(2) ih show ?thesis by (blast intro: same_entry_trans)
  qed
  moreover have "reduced_entry a A B name"
    if "name \<in> set (k # ks)" "name \<in> keys (aggregated_masks A)" for name
  proof (cases "name = k")
    case True
    with s(3) that(2) have "reduced_entry a A C k" by simp
    moreover from ih nk have "same_entry C B k" by simp
    ultimately show ?thesis using True by (simp add: reduced_same)
  next
    case False
    with that(1) have "name \<in> set ks" by simp
    with ih that(2) km have "reduced_entry a C B name" by simp
    moreover from s(2) False have "same_entry A C name" by simp
    ultimately show ?thesis by (rule same_reduced [rotated])
  qed
  ultimately show ?case by blast
qed

subsection \<open>Masks as parameters, and the aggregate\<close>

lemma masks_step_pair:
  "masks_step (n, v) B =
     B\<lparr>aggregated_params := AList.update (n @ ''_mask'') v (aggregated_params B),
       aggregated_params_for_mask :=
         AList.update (n @ ''_mask'') v (aggregated_params_for_mask B)\<rparr>"
  by (simp add: masks_step_def)

lemma masks_fold_frame:
  "aggregated_masks (fold masks_step ms B) = aggregated_masks B"
  "k \<notin> (\<lambda>n. n @ ''_mask'') ` fst ` set ms \<Longrightarrow>
     map_of (aggregated_params (fold masks_step ms B)) k = map_of (aggregated_params B) k
   \<and> map_of (aggregated_params_for_mask (fold masks_step ms B)) k
       = map_of (aggregated_params_for_mask B) k"
proof -
  show "aggregated_masks (fold masks_step ms B) = aggregated_masks B"
    by (induction ms arbitrary: B) (auto simp: masks_step_pair)
  show "k \<notin> (\<lambda>n. n @ ''_mask'') ` fst ` set ms \<Longrightarrow>
     map_of (aggregated_params (fold masks_step ms B)) k = map_of (aggregated_params B) k
   \<and> map_of (aggregated_params_for_mask (fold masks_step ms B)) k
       = map_of (aggregated_params_for_mask B) k"
  proof (induction ms arbitrary: B)
    case Nil
    then show ?case by simp
  next
    case (Cons e ms)
    obtain n v where e: "e = (n, v)" by (cases e)
    from Cons.prems have "k \<noteq> n @ ''_mask''" "k \<notin> (\<lambda>n. n @ ''_mask'') ` fst ` set ms"
      by (auto simp: e)
    with Cons.IH [of "masks_step e B"] show ?case
      by (simp add: e masks_step_pair update_conv')
  qed
qed

lemma masks_fold_entry:
  "distinct (map fst ms) \<Longrightarrow> (n, v) \<in> set ms \<Longrightarrow>
     map_of (aggregated_params (fold masks_step ms B)) (n @ ''_mask'') = Some v
   \<and> map_of (aggregated_params_for_mask (fold masks_step ms B)) (n @ ''_mask'') = Some v"
proof (induction ms arbitrary: B)
  case Nil
  then show ?case by simp
next
  case (Cons e ms)
  show ?case
  proof (cases "e = (n, v)")
    case True
    with Cons.prems(1) have "n \<notin> fst ` set ms" by simp
    then have "n @ ''_mask'' \<notin> (\<lambda>n. n @ ''_mask'') ` fst ` set ms" by auto
    from masks_fold_frame(2) [OF this, of "masks_step e B"] True show ?thesis
      by (simp add: masks_step_pair update_conv')
  next
    case False
    with Cons.prems have "distinct (map fst ms)" "(n, v) \<in> set ms" by auto
    from Cons.IH [OF this] show ?thesis by simp
  qed
qed

lemma aggregate_masked_entry:
  assumes acc: "accumulate bf16 a gp clients = Inr A1"
    and agg: "aggregate bf16 a gp clients = Inr A"
    and k: "name \<in> keys gp" "\<not> endswith name ''_mask''" "needs_mask name"
  shows "\<exists>p pfm m p2 m3.
        map_of (aggregated_params A1) name = Some p
      \<and> map_of (aggregated_params_for_mask A1) name = Some pfm
      \<and> map_of (aggregated_masks A1) name = Some m
      \<and> reduce_masked a (floats p) (floats pfm) (floats m) = Inr (p2, p2, m3)
      \<and> map_of (aggregated_params A) name = Some (FloatT p2)
      \<and> map_of (aggregated_params_for_mask A) name = Some (FloatT p2)
      \<and> map_of (aggregated_masks A) name = Some (FloatT m3)
      \<and> map_of (aggregated_params A) (name @ ''_mask'') = Some (FloatT m3)
      \<and> map_of (aggregated_params_for_mask A) (name @ ''_mask'') = Some (FloatT m3)"
proof -
  from agg acc obtain A2 where
    red: "foldE (reduce_step a (sum_list (map fst clients))) (map fst (aggregated_params A1)) A1
            = Inr A2"
    and A: "A = fold masks_step (aggregated_masks A2) A2"
    by (auto simp: aggregate_def reduce_def masks_as_params_def bindE_eq_Inr)
  note ak = accumulate_keys [OF acc]
  from ak(1) k have in_ap: "name \<in> keys (aggregated_params A1)"
    and in_am: "name \<in> keys (aggregated_masks A1)"
    by (simp_all add: init_accumulators_key_sets acc_keys_def)
  from ak(2) have d: "distinct (map fst (aggregated_params A1))"
    by (simp add: acc_distinct_def)
  from in_ap have "name \<in> set (map fst (aggregated_params A1))" by (simp add: keys_def)
  with reduce_fold [OF d red] in_am have "reduced_entry a A1 A2 name" by blast
  then obtain p pfm m p2 m3 where
    e: "map_of (aggregated_params A1) name = Some p"
       "map_of (aggregated_params_for_mask A1) name = Some pfm"
       "map_of (aggregated_masks A1) name = Some m"
       "reduce_masked a (floats p) (floats pfm) (floats m) = Inr (p2, p2, m3)"
    and e2: "map_of (aggregated_params A2) name = Some (FloatT p2)"
       "map_of (aggregated_params_for_mask A2) name = Some (FloatT p2)"
       "map_of (aggregated_masks A2) name = Some (FloatT m3)"
    unfolding reduced_entry_def by blast
  from reduce_fold_distinct [OF red ak(2)] have d2: "distinct (map fst (aggregated_masks A2))"
    by (simp add: acc_distinct_def)
  from e2(3) have "(name, FloatT m3) \<in> set (aggregated_masks A2)" by (rule map_of_SomeD)
  from masks_fold_entry [OF d2 this, of A2] have
    m: "map_of (aggregated_params A) (name @ ''_mask'') = Some (FloatT m3)"
       "map_of (aggregated_params_for_mask A) (name @ ''_mask'') = Some (FloatT m3)"
    by (simp_all add: A)
  from k(2) have "name \<notin> (\<lambda>n. n @ ''_mask'') ` fst ` set (aggregated_masks A2)"
    by (auto simp: endswith_append)
  from masks_fold_frame(2) [OF this, of A2] e2 have
    "map_of (aggregated_params A) name = Some (FloatT p2)"
    "map_of (aggregated_params_for_mask A) name = Some (FloatT p2)"
    by (simp_all add: A)
  moreover have "map_of (aggregated_masks A) name = Some (FloatT m3)"
    using e2(3) by (simp add: A masks_fold_frame(1))
  ultimately show ?thesis using e m by blast
qed

lemma aggregate_mask_keys:
  assumes "aggregate bf16 a gp clients = Inr A"
  shows "keys (aggregated_masks A) = {k \<in> keys gp. \<not> endswith k ''_mask'' \<and> needs_mask k}"
proof -
  from assms obtain A1 A2 where acc: "accumulate bf16 a gp clients = Inr A1"
    and red: "foldE (reduce_step a (sum_list (map fst clients))) (map fst (aggregated_params A1)) A1
            = Inr A2"
    and A: "A = fold masks_step (aggregated_masks A2) A2"
    by (auto simp: aggregate_def reduce_def masks_as_params_def bindE_eq_Inr)
  have "acc_keys A2 = acc_keys A1"
    by (rule foldE_invariant [OF red, where P = "\<lambda>B. acc_keys B = acc_keys A1"])
       (auto dest: reduce_step_Inr(1))
  with accumulate_keys(1) [OF acc] show ?thesis
    by (simp add: A masks_fold_frame(1) init_accumulators_key_sets acc_keys_def)
qed

lemma aggregate_fin_entry:
  assumes agg: "aggregate bf16 a gp clients = Inr A"
    and k: "name \<in> keys gp" "\<not> endswith name ''_mask''" "needs_mask name"
  shows "fin_entry (aggregated_params A) name"
proof -
  from agg obtain A1 where acc: "accumulate bf16 a gp clients = Inr A1"
    by (auto simp: aggregate_def bindE_eq_Inr)
  from aggregate_masked_entry [OF acc agg k] obtain p pfm m p2 m3 where
    r: "reduce_masked a (floats p) (floats pfm) (floats m) = Inr (p2, p2, m3)"
    and e: "map_of (aggregated_params A) name = Some (FloatT p2)" by blast
  from reduce_masked_Inr(3) [OF r] have "\<forall>q < length p2. \<exists>r. p2 ! q = Fin r"
    by (auto simp: nan_to_num_finite)
  with e show ?thesis by (simp add: fin_entry_def)
qed

text \<open>
  After the reduction the two views of a masked parameter are the same tensor values,
  whatever \<^verbatim>\<open>remember_old\<close> added to \<^verbatim>\<open>aggregated_params_for_mask\<close> before.
\<close>

lemma aggregate_for_mask_equals_params:
  assumes "aggregate bf16 a gp clients = Inr A"
    and "name \<in> keys gp" "\<not> endswith name ''_mask''" "needs_mask name"
  shows "map_of (aggregated_params_for_mask A) name = map_of (aggregated_params A) name"
proof -
  from assms(1) obtain A1 where acc: "accumulate bf16 a gp clients = Inr A1"
    by (auto simp: aggregate_def bindE_eq_Inr)
  from aggregate_masked_entry [OF acc assms] show ?thesis by auto
qed

subsection \<open>Loading a state; pruning never sets a mask bit\<close>

lemma load_layer_Inr:
  assumes "load_layer sd l = Inr l'"
  shows "\<exists>w b m. map_of sd (lname l @ ''.weight'') = Some w
      \<and> map_of sd (lname l @ ''.bias'') = Some b
      \<and> map_of sd (lname l @ ''.weight_mask'') = Some m
      \<and> numel w = length (weight l) \<and> numel m = length (weight_mask l)
      \<and> l' = l\<lparr>weight := floats w, bias := floats b, weight_mask := bools m\<rparr>"
  using assms by (auto simp: load_layer_def split: option.splits if_splits)

lemma load_state_dict_Inr:
  assumes "load_state_dict sd n = Inr n'"
  shows "length n' = length n"
    and "\<And>i. i < length n \<Longrightarrow> load_layer sd (n ! i) = Inr (n' ! i)"
    and "map lname n' = map lname n"
proof -
  from assms have m: "mapE (load_layer sd) n = Inr n'"
    by (simp add: load_state_dict_def split: if_splits)
  then show len: "length n' = length n" by (rule mapE_Inr_length)
  show nth: "\<And>i. i < length n \<Longrightarrow> load_layer sd (n ! i) = Inr (n' ! i)"
    using m by (rule mapE_Inr_nth)
  show "map lname n' = map lname n"
  proof (rule nth_equalityI)
    show "length (map lname n') = length (map lname n)" using len by simp
    fix i assume "i < length (map lname n')"
    with len have i: "i < length n" by simp
    from load_layer_Inr [OF nth [OF i]] have "lname (n' ! i) = lname (n ! i)" by auto
    with i len show "map lname n' ! i = map lname n ! i" by simp
  qed
qed

lemma length_floats [simp]: "length (floats t) = numel t"
  by (cases t) simp_all

lemma length_bools [simp]: "length (bools t) = numel t"
  by (cases t) simp_all

lemma prune_layer_mask:
  assumes "prune_layer topk w pt l = Inr l'"
  shows "lname l' = lname l \<and> length (weight_mask l') = length (weight_mask l)
    \<and> (\<forall>p < length (weight_mask l). weight_mask l' ! p \<longrightarrow> weight_mask l ! p)"
proof (cases w)
  case NonFinite
  with assms show ?thesis by (simp add: prune_layer_def)
next
  case (Whole t)
  show ?thesis
  proof (cases "int (length (weight_mask l)) - t < 0
        \<or> int (length (weight_mask l)) - t \<ge> int (length (weight_mask l))")
    case True
    from prune_layer_skip [OF this, of topk pt] assms Whole show ?thesis by simp
  next
    case False
    then have lo: "0 \<le> int (length (weight_mask l)) - t"
      and hi: "int (length (weight_mask l)) - t < int (length (weight_mask l))" by simp_all
    from assms Whole have r: "prune_layer topk (Whole t) pt l = Inr l'" by simp
    from prune_layer_effect(2,4,6) [OF r lo hi] show ?thesis by simp
  qed
qed

lemma layer_prune_mask:
  assumes "layer_prune topk wbl pt n = Inr n'"
  shows "length n' = length n" and "map lname n' = map lname n"
    and "\<And>i. i < length n \<Longrightarrow>
          length (weight_mask (n' ! i)) = length (weight_mask (n ! i))
        \<and> (\<forall>p < length (weight_mask (n ! i)). weight_mask (n' ! i) ! p \<longrightarrow> weight_mask (n ! i) ! p)"
proof -
  from assms have m: "mapE (\<lambda>l. prune_layer topk (wbl (lname l)) pt l) n = Inr n'"
    by (simp add: layer_prune_def)
  then show len: "length n' = length n" by (rule mapE_Inr_length)
  have nth: "prune_layer topk (wbl (lname (n ! i))) pt (n ! i) = Inr (n' ! i)"
    if "i < length n" for i
    using mapE_Inr_nth [OF m that] .
  show "map lname n' = map lname n"
  proof (rule nth_equalityI)
    show "length (map lname n') = length (map lname n)" using len by simp
    fix i assume "i < length (map lname n')"
    with len have i: "i < length n" by simp
    from prune_layer_mask [OF nth [OF i]] have "lname (n' ! i) = lname (n ! i)" by simp
    with i len show "map lname n' ! i = map lname n ! i" by simp
  qed
  show "\<And>i. i < length n \<Longrightarrow>
          length (weight_mask (n' ! i)) = length (weight_mask (n ! i))
        \<and> (\<forall>p < length (weight_mask (n ! i)). weight_mask (n' ! i) ! p \<longrightarrow> weight_mask (n ! i) ! p)"
    using prune_layer_mask [OF nth] by simp
qed

lemma round_names:
  assumes "load_state_dict sd g = Inr g5"
    and "g6 = g5 \<or> layer_prune topk wbl pt g5 = Inr g6"
  shows "map lname g6 = map lname g" and "length g6 = length g"
proof -
  from assms(2) have "map lname g6 = map lname g5"
    by (auto dest: layer_prune_mask(2))
  with load_state_dict_Inr(3) [OF assms(1)] show "map lname g6 = map lname g" by simp
  then show "length g6 = length g" by (metis length_map)
qed

subsection \<open>The last loop of the round\<close>

lemma zero_outside_numel: "length m = numel t \<Longrightarrow> numel (zero_outside m t) = numel t"
  by (cases t) simp_all

lemma zero_outside_nth:
  "length m = numel t \<Longrightarrow> p < numel t \<Longrightarrow>
   floats (zero_outside m t) ! p = (if m ! p then floats t ! p else Fin 0)"
  by (cases t) (simp_all add: of_mask_def)

lemma append_mask_neq: "\<not> endswith name ''_mask'' \<Longrightarrow> name \<noteq> k @ ''_mask''"
  by (auto simp: endswith_append)

lemma enforce_step_Inr:
  assumes st: "enforce_step gp k ap = Inr ap'" and k: "\<not> endswith k ''_mask''"
  shows "enforced gp ap' k"
    and "\<And>name. \<not> endswith name ''_mask'' \<Longrightarrow> enforced gp ap name \<Longrightarrow> enforced gp ap' name"
    and "\<And>name. \<not> endswith name ''_mask'' \<Longrightarrow> fin_entry ap name \<Longrightarrow> fin_entry ap' name"
proof -
  from k have kk: "k \<noteq> k @ ''_mask''" by (rule append_mask_neq)
  from st kk obtain m p where gm: "map_of gp (k @ ''_mask'') = Some (BoolT m)"
    and p: "map_of ap k = Some p" and len: "length m = numel p"
    and ap': "ap' = AList.update k (zero_outside m p)
                (AList.update (k @ ''_mask'') (BoolT m) ap)"
    by (auto simp: enforce_step_def Let_def update_conv' split: option.splits tensor.splits
        if_splits)
  have z: "\<forall>q < length m. \<not> m ! q \<longrightarrow> floats (zero_outside m p) ! q = Fin 0"
    using len by (simp add: zero_outside_nth)
  show e: "enforced gp ap' k"
    unfolding enforced_def using gm kk len z
    by (simp add: ap' update_conv' zero_outside_numel)
  show "enforced gp ap' name" if n: "\<not> endswith name ''_mask''" and en: "enforced gp ap name"
    for name
  proof (cases "name = k")
    case True
    with e show ?thesis by simp
  next
    case False
    from n have "name \<noteq> k @ ''_mask''" by (rule append_mask_neq)
    moreover from k have "k \<noteq> name @ ''_mask''" by (rule append_mask_neq)
    ultimately show ?thesis
      using en False unfolding enforced_def by (simp add: ap' update_conv')
  qed
  show "fin_entry ap' name" if n: "\<not> endswith name ''_mask''" and fe: "fin_entry ap name"
    for name
  proof (cases "name = k")
    case True
    with fe p have "\<forall>q < numel p. \<exists>r. floats p ! q = Fin r" by (simp add: fin_entry_def)
    with len have "\<forall>q < numel p. \<exists>r. floats (zero_outside m p) ! q = Fin r"
      by (simp add: zero_outside_nth)
    with True len show ?thesis
      by (simp add: fin_entry_def ap' update_conv' zero_outside_numel)
  next
    case False
    from n have "name \<noteq> k @ ''_mask''" by (rule append_mask_neq)
    with fe False show ?thesis by (simp add: fin_entry_def ap' update_conv')
  qed
qed

lemma enforce_fold_keep:
  assumes f: "foldE (enforce_step gp) ks ap = Inr ap'"
    and ks: "\<forall>k \<in> set ks. \<not> endswith k ''_mask''"
    and n: "\<not> endswith name ''_mask''"
    and e: "enforced gp ap name"
  shows "enforced gp ap' name"
proof (rule foldE_invariant [where P = "\<lambda>d. enforced gp d name", OF f e])
  fix x t t'
  assume x: "x \<in> set ks" and p: "enforced gp t name" and st: "enforce_step gp x t = Inr t'"
  from ks x have "\<not> endswith x ''_mask''" by blast
  from enforce_step_Inr(2) [OF st this n p] show "enforced gp t' name" .
qed

lemma enforce_fold_fin:
  assumes f: "foldE (enforce_step gp) ks ap = Inr ap'"
    and ks: "\<forall>k \<in> set ks. \<not> endswith k ''_mask''"
    and n: "\<not> endswith name ''_mask''"
    and e: "fin_entry ap name"
  shows "fin_entry ap' name"
proof (rule foldE_invariant [where P = "\<lambda>d. fin_entry d name", OF f e])
  fix x t t'
  assume x: "x \<in> set ks" and p: "fin_entry t name" and st: "enforce_step gp x t = Inr t'"
  from ks x have "\<not> endswith x ''_mask''" by blast
  from enforce_step_Inr(3) [OF st this n p] show "fin_entry t' name" .
qed

lemma enforce_fold:
  "foldE (enforce_step gp) ks ap = Inr ap' \<Longrightarrow> \<forall>k \<in> set ks. \<not> endswith k ''_mask''
     \<Longrightarrow> name \<in> set ks \<Longrightarrow> enforced gp ap' name"
proof (induction ks arbitrary: ap)
  case Nil
  then show ?case by simp
next
  case (Cons k ks)
  from Cons.prems(1) obtain ap1 where st: "enforce_step gp k ap = Inr ap1"
    and f: "foldE (enforce_step gp) ks ap1 = Inr ap'"
    by (auto split: sum.splits)
  from Cons.prems(2) have k: "\<not> endswith k ''_mask''"
    and ks: "\<forall>k \<in> set ks. \<not> endswith k ''_mask''" by simp_all
  show ?case
  proof (cases "name \<in> set ks")
    case True
    from Cons.IH [OF f ks True] show ?thesis .
  next
    case False
    with Cons.prems(3) have nk: "name = k" by simp
    from enforce_step_Inr(1) [OF st k] have "enforced gp ap1 k" .
    from enforce_fold_keep [OF f ks k this] nk show ?thesis by simp
  qed
qed

lemma weight_key_in_state_dict:
  assumes "l \<in> set n"
  shows "lname l @ ''.weight'' \<in> keys (state_dict n)"
proof -
  have "lname l @ ''.weight'' \<in> set (layer_keys l)" by (simp add: layer_keys_def)
  with assms have "lname l @ ''.weight'' \<in> set (concat (map layer_keys n))" by auto
  then have "lname l @ ''.weight'' \<in> set (map fst (state_dict n))"
    by (simp only: keys_state_dict')
  then show ?thesis by (simp add: keys_def)
qed

lemma aggregation_round_Inr:
  assumes "aggregation_round topk f32 bf16 a round_sp wbl g clients = Inr g'"
  obtains A g5 g6 ap7 where
    "aggregate bf16 a (state_dict g) clients = Inr A"
    "load_state_dict (aggregated_params_for_mask A) g = Inr g5"
    "g6 = g5 \<or> layer_prune topk wbl (prune_kind a) g5 = Inr g6"
    "foldE (enforce_step (state_dict g6)) (map fst (aggregated_masks A)) (aggregated_params A)
       = Inr ap7"
    "load_state_dict ap7 g6 = Inr g'"
proof -
  from assms obtain A g5 sp rs g6 ap7 where
    "aggregate bf16 a (state_dict g) clients = Inr A"
    "load_state_dict (aggregated_params_for_mask A) g = Inr g5"
    "(if flt sp rs then layer_prune topk wbl (prune_kind a) g5 else Inr g5) = Inr g6"
    "foldE (enforce_step (state_dict g6)) (map fst (aggregated_masks A)) (aggregated_params A)
       = Inr ap7"
    "load_state_dict ap7 g6 = Inr g'"
    unfolding aggregation_round_def bindE_eq_Inr by blast
  then show ?thesis using that by (auto split: if_splits)
qed

lemma final_layer:
  assumes f: "foldE (enforce_step (state_dict g6)) ks ap = Inr ap7"
    and ld: "load_state_dict ap7 g6 = Inr g'"
    and d: "distinct (map lname g6)" and i: "i < length g6"
    and kin: "lname (g6 ! i) @ ''.weight'' \<in> set ks"
    and ks: "\<forall>k \<in> set ks. \<not> endswith k ''_mask''"
  shows "weight_mask (g' ! i) = weight_mask (g6 ! i)"
    and "length (weight (g' ! i)) = length (weight_mask (g6 ! i))"
    and "\<forall>p < length (weight_mask (g6 ! i)). \<not> weight_mask (g6 ! i) ! p
           \<longrightarrow> weight (g' ! i) ! p = Fin 0"
    and "fin_entry ap (lname (g6 ! i) @ ''.weight'')
           \<Longrightarrow> \<forall>p < length (weight (g' ! i)). \<exists>r. weight (g' ! i) ! p = Fin r"
proof -
  let ?l = "g6 ! i" and ?k = "lname (g6 ! i) @ ''.weight''"
  have l: "?l \<in> set g6" using i by simp
  from enforce_fold [OF f ks kin] obtain m w where
    gm: "map_of (state_dict g6) (?k @ ''_mask'') = Some (BoolT m)"
    and am: "map_of ap7 (?k @ ''_mask'') = Some (BoolT m)"
    and aw: "map_of ap7 ?k = Some w" and len: "numel w = length m"
    and z: "\<forall>p < length m. \<not> m ! p \<longrightarrow> floats w ! p = Fin 0"
    unfolding enforced_def by blast
  from map_of_state_dict [OF d l] gm have m: "m = weight_mask ?l" by simp
  from load_layer_Inr [OF load_state_dict_Inr(2) [OF ld i]] aw am
  have w': "weight (g' ! i) = floats w" and m': "weight_mask (g' ! i) = m"
    by auto
  show "weight_mask (g' ! i) = weight_mask (g6 ! i)" using m m' by simp
  show "length (weight (g' ! i)) = length (weight_mask (g6 ! i))"
    using w' len m by simp
  show "\<forall>p < length (weight_mask (g6 ! i)). \<not> weight_mask (g6 ! i) ! p
           \<longrightarrow> weight (g' ! i) ! p = Fin 0"
    using z w' m by simp
  show "\<forall>p < length (weight (g' ! i)). \<exists>r. weight (g' ! i) ! p = Fin r"
    if "fin_entry ap ?k"
  proof -
    have nk: "\<not> endswith ?k ''_mask''" by simp
    from enforce_fold_fin [OF f ks nk that] aw w' show ?thesis
      by (simp add: fin_entry_def)
  qed
qed

subsection \<open>Concrete rounds\<close>

lemma endswith_eval:
  "endswith name suf =
     (length suf \<le> length name \<and> drop (length name - length suf) name = suf)"
  unfolding endswith_def suffix_def
  by (metis append_eq_conv_conj append_take_drop_id diff_add_inverse2 le_add2 length_append)

lemma state_dict_fc_net:
  "state_dict (fc_net w b m) =
     [(''fc.weight'', FloatT w), (''fc.bias'', FloatT b), (''fc.weight_mask'', BoolT m)]"
  by (simp add: state_dict_def fc_net_def layer_items_def)

lemma two_client_accumulate:
  "accumulate bf16 (vote_args 1 False) (state_dict (fc_net [g0, g1, g2] [gb] [m0, m1, m2]))
     [(n, state_dict (fc_net [Fin 2, Fin x, Fin 4] [b1] [True, False, True])),
      (n, state_dict (fc_net [Fin 3, Fin 5, Fin y] [b2] [True, True, False]))]
   = Inr \<lparr>aggregated_params =
            [(''fc.weight'', FloatT [Fin (5 * real n), Fin (5 * real n), Fin (4 * real n)]),
             (''fc.bias'', FloatT [fadd (fadd (Fin 0) (fmul (Fin (real n)) b1)) (fmul (Fin (real n)) b2)])],
          aggregated_params_for_mask =
            [(''fc.weight'', FloatT [Fin (5 * real n), Fin (5 * real n), Fin (4 * real n)]),
             (''fc.bias'', FloatT [Fin 0])],
          aggregated_masks =
            [(''fc.weight'', FloatT [Fin (2 * real n), Fin (real n), Fin (real n)])]\<rparr>"
  by (simp add: state_dict_fc_net accumulate_def init_accumulators_def init_step_def
      endswith_eval needs_mask_def zeros_float_def client_accumulate_def decode_client_def
      decode_step_def received_def vote_args_def strip5_def client_step_def add_to_def
      tmul_def broadcast_def inplace_def scaled_def of_mask_def numeral_eq_Suc)

lemma two_client_aggregate:
  assumes "2 \<le> n"
  shows "aggregate bf16 (vote_args 1 False)
     (state_dict (fc_net [g0, g1, g2] [gb] [m0, m1, m2]))
     [(n, state_dict (fc_net [Fin 2, Fin x, Fin 4] [b1] [True, False, True])),
      (n, state_dict (fc_net [Fin 3, Fin 5, Fin y] [b2] [True, True, False]))]
   = Inr \<lparr>aggregated_params =
            [(''fc.weight'', FloatT [Fin (5/2), Fin 5, Fin 4]),
             (''fc.bias'', FloatT [fdiv (fadd (fadd (Fin 0) (fmul (Fin (real n)) b1)) (fmul (Fin (real n)) b2)) (Fin (real (n + n)))]),
             (''fc.weight_mask'', FloatT [Fin 1, Fin 1, Fin 1])],
          aggregated_params_for_mask =
            [(''fc.weight'', FloatT [Fin (5/2), Fin 5, Fin 4]), (''fc.bias'', FloatT [Fin 0]),
             (''fc.weight_mask'', FloatT [Fin 1, Fin 1, Fin 1])],
          aggregated_masks = [(''fc.weight'', FloatT [Fin 1, Fin 1, Fin 1])]\<rparr>"
proof -
  from assms have n: "real n > 1" "real n \<noteq> 0" "\<not> real n * 2 \<le> 1" "\<not> 2 * real n \<le> 1" by simp_all
  show ?thesis
    unfolding aggregate_def two_client_accumulate
    using n
    by (simp add: reduce_def reduce_step_def reduce_masked_def tdiv_def inplace_def
        threshold_def masks_as_params_def masks_step_def vote_args_def Let_def)
qed

text \<open>
  Two clients of train size 2 under \<open>min_votes = 2\<close>: position 0 has 4 votes, positions
  1 and 2 have 2 votes each and are dropped.
\<close>

lemma pair_accumulate:
  "accumulate (\<lambda>x. x) (vote_args 2 False)
     (state_dict (fc_net [Fin 1, Fin 1, Fin 1] [Fin 0] [True, True, True]))
     [(2, state_dict (fc_net [Fin 2, Fin 0, Fin 4] [Fin 1] [True, False, True])),
      (2, state_dict (fc_net [Fin 3, Fin 5, Fin 0] [Fin 3] [True, True, False]))]
   = Inr \<lparr>aggregated_params =
            [(''fc.weight'', FloatT [Fin 10, Fin 10, Fin 8]), (''fc.bias'', FloatT [Fin 8])],
          aggregated_params_for_mask =
            [(''fc.weight'', FloatT [Fin 10, Fin 10, Fin 8]), (''fc.bias'', FloatT [Fin 0])],
          aggregated_masks = [(''fc.weight'', FloatT [Fin 4, Fin 2, Fin 2])]\<rparr>"
  by code_simp

lemma pair_aggregate:
  "aggregate (\<lambda>x. x) (vote_args 2 False)
     (state_dict (fc_net [Fin 1, Fin 1, Fin 1] [Fin 0] [True, True, True]))
     [(2, state_dict (fc_net [Fin 2, Fin 0, Fin 4] [Fin 1] [True, False, True])),
      (2, state_dict (fc_net [Fin 3, Fin 5, Fin 0] [Fin 3] [True, True, False]))]
   = Inr \<lparr>aggregated_params =
            [(''fc.weight'', FloatT [Fin (5/2), Fin 0, Fin 0]), (''fc.bias'', FloatT [Fin 2]),
             (''fc.weight_mask'', FloatT [Fin 1, Fin 0, Fin 0])],
          aggregated_params_for_mask =
            [(''fc.weight'', FloatT [Fin (5/2), Fin 0, Fin 0]), (''fc.bias'', FloatT [Fin 0]),
             (''fc.weight_mask'', FloatT [Fin 1, Fin 0, Fin 0])],
          aggregated_masks = [(''fc.weight'', FloatT [Fin 1, Fin 0, Fin 0])]\<rparr>"
  by code_simp

lemma pair_round:
  "aggregation_round topk_stable (\<lambda>r. r) (\<lambda>x. x) (vote_args 2 False) 0 (\<lambda>name. Whole 3)
     (fc_net [Fin 1, Fin 1, Fin 1] [Fin 0] [True, True, True])
     [(2, state_dict (fc_net [Fin 2, Fin 0, Fin 4] [Fin 1] [True, False, True])),
      (2, state_dict (fc_net [Fin 3, Fin 5, Fin 0] [Fin 3] [True, True, False]))]
   = Inr (fc_net [Fin (5/2), Fin 0, Fin 0] [Fin 2] [True, False, False])"
  by code_simp

text \<open>Without a sampled client the comparison with \<^verbatim>\<open>round_sparsity\<close> raises.\<close>

lemma no_clients_round:
  "aggregation_round topk_stable (\<lambda>r. r) (\<lambda>x. x) (vote_args 2 False) 0 (\<lambda>name. Whole 3)
     (fc_net [Fin 1, Fin 1, Fin 1] [Fin 0] [True, True, True]) []
   = Inl NameError"
  by code_simp

subsection \<open>The remember-augmented view\<close>

text \<open>
  Claim C1. With \<^verbatim>\<open>remember_old\<close>, the view \<^verbatim>\<open>sum_params_for_mask\<close> that is loaded into
  the global model keeps the server's value at a position no sampled client claimed, and
  so differs from \<^verbatim>\<open>sum_params\<close> there. In the code the difference does not survive the
  reduction: the global weight 7 (mask 1) meets one client of train size 2 whose mask
  is 0. The accumulators hold 0 and 14 over 2 votes, so the augmented quotient is 7;
  but \<^verbatim>\<open>aggregated_params_for_mask[name]\<close> is then assigned
  \<^verbatim>\<open>nan_to_num(aggregated_params[name])\<close>, and both views hold 0.
\<close>

theorem remembered_value_is_overwritten:
  "accumulate (\<lambda>x. x) (vote_args 0 True) (state_dict (fc_net [Fin 7] [Fin 0] [True]))
     [(2, state_dict (fc_net [Fin 0] [Fin 0] [False]))]
   = Inr \<lparr>aggregated_params =
            [(''fc.weight'', FloatT [Fin 0]), (''fc.bias'', FloatT [Fin 0])],
          aggregated_params_for_mask =
            [(''fc.weight'', FloatT [Fin 14]), (''fc.bias'', FloatT [Fin 0])],
          aggregated_masks = [(''fc.weight'', FloatT [Fin 2])]\<rparr>
   \<and> tdiv [Fin 14] [Fin 2] = Inr [Fin 7]
   \<and> aggregate (\<lambda>x. x) (vote_args 0 True) (state_dict (fc_net [Fin 7] [Fin 0] [True]))
     [(2, state_dict (fc_net [Fin 0] [Fin 0] [False]))]
   = Inr \<lparr>aggregated_params =
            [(''fc.weight'', FloatT [Fin 0]), (''fc.bias'', FloatT [Fin 0]),
             (''fc.weight_mask'', FloatT [Fin 1])],
          aggregated_params_for_mask =
            [(''fc.weight'', FloatT [Fin 0]), (''fc.bias'', FloatT [Fin 0]),
             (''fc.weight_mask'', FloatT [Fin 1])],
          aggregated_masks = [(''fc.weight'', FloatT [Fin 1])]\<rparr>"
  by code_simp

subsection \<open>The published model\<close>

text \<open>
  Claim C5. At the end of every aggregation round the published global model matches
  its own mask: in every mask-bearing parameter, every element whose final mask bit is 0
  is exactly 0; and no element is NaN or an infinity, so no placeholder of a division by
  zero votes is published. (The mask has the shape of the weight, and the children keep
  their names.) The statement is about a round that has returned; the last section shows
  that a round over well-formed inputs does return.
\<close>

theorem published_model_matches_mask:
  assumes "aggregation_round topk f32 bf16 a round_sp weights_by_layer global_model clients
             = Inr g'"
    and "distinct (map lname global_model)"
  shows "length g' = length global_model
    \<and> (\<forall>i < length g'.
          lname (g' ! i) = lname (global_model ! i)
        \<and> length (weight_mask (g' ! i)) = length (weight (g' ! i))
        \<and> (\<forall>p < length (weight (g' ! i)).
              (\<not> weight_mask (g' ! i) ! p \<longrightarrow> weight (g' ! i) ! p = Fin 0)
            \<and> (\<exists>r. weight (g' ! i) ! p = Fin r)))"
proof -
  from assms(1) obtain A g5 g6 ap7 where
    agg: "aggregate bf16 a (state_dict global_model) clients = Inr A"
    and l5: "load_state_dict (aggregated_params_for_mask A) global_model = Inr g5"
    and p6: "g6 = g5 \<or> layer_prune topk weights_by_layer (prune_kind a) g5 = Inr g6"
    and f: "foldE (enforce_step (state_dict g6)) (map fst (aggregated_masks A))
              (aggregated_params A) = Inr ap7"
    and l7: "load_state_dict ap7 g6 = Inr g'"
    by (rule aggregation_round_Inr)
  note nm = round_names [OF l5 p6]
  from nm(1) assms(2) have d6: "distinct (map lname g6)" by simp
  have len: "length g' = length global_model"
    using load_state_dict_Inr(1) [OF l7] nm(2) by simp
  have names: "map lname g' = map lname global_model"
    using load_state_dict_Inr(3) [OF l7] nm(1) by simp
  note mk = aggregate_mask_keys [OF agg]
  have ks: "\<forall>k \<in> set (map fst (aggregated_masks A)). \<not> endswith k ''_mask''"
    using mk by (auto simp: keys_def)
  have "lname (g' ! i) = lname (global_model ! i)
        \<and> length (weight_mask (g' ! i)) = length (weight (g' ! i))
        \<and> (\<forall>p < length (weight (g' ! i)).
              (\<not> weight_mask (g' ! i) ! p \<longrightarrow> weight (g' ! i) ! p = Fin 0)
            \<and> (\<exists>r. weight (g' ! i) ! p = Fin r))"
    if "i < length g'" for i
  proof -
    from that len nm(2) have i6: "i < length g6" and ig: "i < length global_model" by simp_all
    from nm(1) i6 ig have n6: "lname (g6 ! i) = lname (global_model ! i)"
      by (metis nth_map)
    from names that ig have n': "lname (g' ! i) = lname (global_model ! i)"
      by (metis nth_map)
    let ?k = "lname (g6 ! i) @ ''.weight''"
    from ig have "global_model ! i \<in> set global_model" by simp
    from weight_key_in_state_dict [OF this] n6
    have kg: "?k \<in> keys (state_dict global_model)" by simp
    have nk: "\<not> endswith ?k ''_mask''" and nd: "needs_mask ?k" by simp_all
    from kg nk nd mk have "?k \<in> keys (aggregated_masks A)" by simp
    then have kin: "?k \<in> set (map fst (aggregated_masks A))" by (simp add: keys_def)
    note fl = final_layer [OF f l7 d6 i6 kin ks]
    from aggregate_fin_entry [OF agg kg nk nd] fl(4)
    have fin: "\<forall>p < length (weight (g' ! i)). \<exists>r. weight (g' ! i) ! p = Fin r" by blast
    from fl(1,2,3) fin n' show ?thesis by simp
  qed
  with len show ?thesis by blast
qed

text \<open>
  Two clients of train size 2 under \<open>min_votes = 2\<close>: positions 1 and 2 have two votes
  each and are dropped; the published weights there are 0.
\<close>

theorem published_model_matches_mask_witness:
  "\<exists>g'. aggregation_round topk_stable (\<lambda>r. r) (\<lambda>x. x) (vote_args 2 False) 0
       (\<lambda>name. Whole 3)
     (fc_net [Fin 1, Fin 1, Fin 1] [Fin 0] [True, True, True])
     [(2, state_dict (fc_net [Fin 2, Fin 0, Fin 4] [Fin 1] [True, False, True])),
      (2, state_dict (fc_net [Fin 3, Fin 5, Fin 0] [Fin 3] [True, True, False]))] = Inr g'
   \<and> length g' = 1 \<and> weight_mask (g' ! 0) = [True, False, False]
   \<and> weight (g' ! 0) ! 1 = Fin 0 \<and> weight (g' ! 0) ! 2 = Fin 0"
proof -
  let ?g = "fc_net [Fin 1, Fin 1, Fin 1] [Fin 0] [True, True, True]"
  let ?g' = "fc_net [Fin (5/2), Fin 0, Fin 0] [Fin 2] [True, False, False]"
  have d: "distinct (map lname ?g)" by (simp add: fc_net_def)
  from published_model_matches_mask [OF pair_round d]
  have "length ?g' = length ?g"
    and "\<forall>i < length ?g'. \<forall>p < length (weight (?g' ! i)).
           \<not> weight_mask (?g' ! i) ! p \<longrightarrow> weight (?g' ! i) ! p = Fin 0"
    by simp_all
  then have "length ?g' = 1" and "weight (?g' ! 0) ! 1 = Fin 0" and "weight (?g' ! 0) ! 2 = Fin 0"
    by (simp_all add: fc_net_def)
  moreover have "weight_mask (?g' ! 0) = [True, False, False]" by (simp add: fc_net_def)
  ultimately show ?thesis using pair_round by blast
qed

subsection \<open>Vote thresholding\<close>

text \<open>
  Claim C7, as amended. For every position of every masked parameter: if the accumulated
  vote count, the value of the accumulator \<^verbatim>\<open>aggregated_masks\<close> there (the sum of the
  train sizes of the clients whose mask is 1 at the position, plus, with
  \<^verbatim>\<open>remember_old\<close>, of those for which only the server's mask is 1), is at or below
  \<^verbatim>\<open>min_votes\<close>, then the aggregated mask is 0 at that position, and so is the mask of
  the published model.
\<close>

theorem votes_at_or_below_min_votes_are_dropped:
  assumes "accumulate bf16 a (state_dict global_model) clients = Inr A1"
    and "aggregate bf16 a (state_dict global_model) clients = Inr A"
    and "aggregation_round topk f32 bf16 a round_sp weights_by_layer global_model clients
           = Inr g'"
    and "distinct (map lname global_model)"
    and "i < length global_model"
    and "map_of (aggregated_masks A1) (lname (global_model ! i) @ ''.weight'') = Some votes"
    and "p < numel votes"
    and "fle (floats votes ! p) (real_of_int (min_votes a))"
  shows "(\<exists>m. map_of (aggregated_masks A) (lname (global_model ! i) @ ''.weight'') = Some m
            \<and> p < numel m \<and> floats m ! p = Fin 0)
    \<and> p < length (weight_mask (g' ! i)) \<and> \<not> weight_mask (g' ! i) ! p"
proof -
  let ?k = "lname (global_model ! i) @ ''.weight''"
  from assms(3) obtain A' g5 g6 ap7 where
    agg': "aggregate bf16 a (state_dict global_model) clients = Inr A'"
    and l5': "load_state_dict (aggregated_params_for_mask A') global_model = Inr g5"
    and p6': "g6 = g5 \<or> layer_prune topk weights_by_layer (prune_kind a) g5 = Inr g6"
    and f': "foldE (enforce_step (state_dict g6)) (map fst (aggregated_masks A'))
              (aggregated_params A') = Inr ap7"
    and l7: "load_state_dict ap7 g6 = Inr g'"
    by (rule aggregation_round_Inr)
  from agg' assms(2) have AA: "A' = A" by simp
  note agg = assms(2) and l5 = l5' [unfolded AA] and f = f' [unfolded AA]
  note nm = round_names [OF l5 p6']
  from nm(1) assms(4) have d6: "distinct (map lname g6)" by simp
  from assms(5) nm(2) have i6: "i < length g6" by simp
  from nm(1) i6 assms(5) have n6: "lname (g6 ! i) = lname (global_model ! i)"
    by (metis nth_map)
  from assms(5) have "global_model ! i \<in> set global_model" by simp
  from weight_key_in_state_dict [OF this]
  have kg: "?k \<in> keys (state_dict global_model)" .
  have nk: "\<not> endswith ?k ''_mask''" and nd: "needs_mask ?k" by simp_all
  from aggregate_masked_entry [OF assms(1) agg kg nk nd] assms(6) obtain pp pfm p2 m3 where
    r: "reduce_masked a (floats pp) (floats pfm) (floats votes) = Inr (p2, p2, m3)"
    and em: "map_of (aggregated_masks A) ?k = Some (FloatT m3)"
    and ek: "map_of (aggregated_params_for_mask A) (?k @ ''_mask'') = Some (FloatT m3)"
    by auto
  from reduce_masked_Inr(4) [OF r] assms(7,8)
  have lm3: "length m3 = numel votes" and z: "m3 ! p = Fin 0"
    by (simp_all add: dropped_vote)
  have one: "\<exists>m. map_of (aggregated_masks A) ?k = Some m \<and> p < numel m \<and> floats m ! p = Fin 0"
    using em lm3 z assms(7) by simp
  \<comment> \<open>the mask loaded in step 5\<close>
  from load_layer_Inr [OF load_state_dict_Inr(2) [OF l5 assms(5)]] ek
  have m5: "weight_mask (g5 ! i) = map nonzero m3" by auto
  with lm3 z assms(7) have b5: "p < length (weight_mask (g5 ! i))"
    and z5: "\<not> weight_mask (g5 ! i) ! p" by (simp_all add: nonzero_def)
  \<comment> \<open>the optional re-prune clears bits only\<close>
  have i5: "i < length g5" using load_state_dict_Inr(1) [OF l5] assms(5) by simp
  from p6' have "length (weight_mask (g6 ! i)) = length (weight_mask (g5 ! i))
        \<and> (\<forall>q < length (weight_mask (g5 ! i)). weight_mask (g6 ! i) ! q \<longrightarrow> weight_mask (g5 ! i) ! q)"
  proof
    assume "g6 = g5"
    then show ?thesis by simp
  next
    assume "layer_prune topk weights_by_layer (prune_kind a) g5 = Inr g6"
    from layer_prune_mask(3) [OF this i5] show ?thesis .
  qed
  with b5 z5 have b6: "p < length (weight_mask (g6 ! i))" and z6: "\<not> weight_mask (g6 ! i) ! p"
    by auto
  \<comment> \<open>the published mask is the mask after the re-prune\<close>
  note mk = aggregate_mask_keys [OF agg]
  have ks: "\<forall>k \<in> set (map fst (aggregated_masks A)). \<not> endswith k ''_mask''"
    using mk by (auto simp: keys_def)
  from kg nk nd mk have "?k \<in> keys (aggregated_masks A)" by simp
  then have kin: "lname (g6 ! i) @ ''.weight'' \<in> set (map fst (aggregated_masks A))"
    by (simp add: keys_def n6)
  from final_layer(1) [OF f l7 d6 i6 kin ks] b6 z6
  have "p < length (weight_mask (g' ! i)) \<and> \<not> weight_mask (g' ! i) ! p" by simp
  with one show ?thesis by blast
qed

theorem votes_at_or_below_min_votes_are_dropped_witness:
  "\<exists>g'. aggregation_round topk_stable (\<lambda>r. r) (\<lambda>x. x) (vote_args 2 False) 0
       (\<lambda>name. Whole 3)
     (fc_net [Fin 1, Fin 1, Fin 1] [Fin 0] [True, True, True])
     [(2, state_dict (fc_net [Fin 2, Fin 0, Fin 4] [Fin 1] [True, False, True])),
      (2, state_dict (fc_net [Fin 3, Fin 5, Fin 0] [Fin 3] [True, True, False]))] = Inr g'
   \<and> 1 < length (weight_mask (g' ! 0)) \<and> \<not> weight_mask (g' ! 0) ! 1"
proof -
  let ?g = "fc_net [Fin 1, Fin 1, Fin 1] [Fin 0] [True, True, True]"
  have d: "distinct (map lname ?g)" and i: "0 < length ?g" by (simp_all add: fc_net_def)
  have v: "map_of (aggregated_masks
        \<lparr>aggregated_params =
            [(''fc.weight'', FloatT [Fin 10, Fin 10, Fin 8]), (''fc.bias'', FloatT [Fin 8])],
          aggregated_params_for_mask =
            [(''fc.weight'', FloatT [Fin 10, Fin 10, Fin 8]), (''fc.bias'', FloatT [Fin 0])],
          aggregated_masks = [(''fc.weight'', FloatT [Fin 4, Fin 2, Fin 2])]\<rparr>)
      (lname (?g ! 0) @ ''.weight'') = Some (FloatT [Fin 4, Fin 2, Fin 2])"
    by (simp add: fc_net_def)
  have p: "1 < numel (FloatT [Fin 4, Fin 2, Fin 2])" by simp
  have le: "fle (floats (FloatT [Fin 4, Fin 2, Fin 2]) ! 1)
      (real_of_int (min_votes (vote_args 2 False)))"
    by (simp add: vote_args_def)
  from votes_at_or_below_min_votes_are_dropped
    [OF pair_accumulate pair_aggregate pair_round d i v p le]
  show ?thesis using pair_round by blast
qed

text \<open>
  The claim's other reading, that a position observed as active by fewer than
  \<^verbatim>\<open>min_votes\<close> clients is dropped, fails on one round: the count that is thresholded
  is weighted by train size. One client of train size 4 is fewer than \<open>min_votes = 2\<close>
  clients, its 4 votes exceed the threshold, and the position stays in the published
  mask. (The server does not re-prune in this round: the sparsity 0 of the loaded model
  is not below the round's 0, so \<^verbatim>\<open>torch.topk\<close> is not called.)
\<close>

theorem few_observers_heavy_client_kept:
  "n_observers [(4, state_dict (fc_net [Fin 3] [Fin 0] [True]))] ''fc.weight'' 0 = 1
   \<and> min_votes (vote_args 2 False) = 2
   \<and> aggregation_round topk_stable (\<lambda>r. r) (\<lambda>x. x) (vote_args 2 False) 0 (\<lambda>name. Whole 1)
        (fc_net [Fin 1] [Fin 0] [True]) [(4, state_dict (fc_net [Fin 3] [Fin 0] [True]))]
      = Inr (fc_net [Fin 3] [Fin 0] [True])"
  by code_simp

subsection \<open>The two-client example\<close>

text \<open>
  Claim C8. Two sampled clients of equal train size \<open>n\<close>, \<open>min_votes = 1\<close>, no
  \<^verbatim>\<open>remember_old\<close>, masks 1,0,1 and 1,1,0, weights 2,x,4 and 3,5,y: the aggregated mask
  is 1,1,1 and the aggregated weights are 5/2, 5 and 4. A client that has trained has
  \<open>n \<ge> 2\<close> (its train size is twice its number of batches). The values x and y at the
  masked-out positions, the biases and the global state are arbitrary. The two bounds
  keep the example inside what the exact arithmetic of the model shares with
  \<^verbatim>\<open>float32\<close>: with \<open>5 * n \<le> 2 ^ 24\<close> every sum and product of the example is a whole
  number that \<^verbatim>\<open>float32\<close> represents, and with \<open>n * \<bar>x\<bar> \<le> 2 ^ 127\<close> the product
  \<^verbatim>\<open>train_size * weight\<close> at a masked-out position does not overflow before it is
  multiplied by the mask bit 0.
\<close>

theorem two_client_example:
  assumes "2 \<le> n" and "5 * n \<le> 2 ^ 24"
    and "real n * \<bar>x\<bar> \<le> 2 ^ 127" and "real n * \<bar>y\<bar> \<le> 2 ^ 127"
  shows "\<exists>A. aggregate bf16 (vote_args 1 False)
       (state_dict (fc_net [g0, g1, g2] [gb] [m0, m1, m2]))
       [(n, state_dict (fc_net [Fin 2, Fin x, Fin 4] [b1] [True, False, True])),
        (n, state_dict (fc_net [Fin 3, Fin 5, Fin y] [b2] [True, True, False]))] = Inr A
     \<and> map_of (aggregated_masks A) ''fc.weight'' = Some (FloatT [Fin 1, Fin 1, Fin 1])
     \<and> map_of (aggregated_params A) ''fc.weight_mask'' = Some (FloatT [Fin 1, Fin 1, Fin 1])
     \<and> map_of (aggregated_params A) ''fc.weight'' = Some (FloatT [Fin (5/2), Fin 5, Fin 4])"
  unfolding two_client_aggregate [OF assms(1)] by simp

theorem two_client_example_witness:
  "\<exists>A. aggregate (\<lambda>x. x) (vote_args 1 False)
       (state_dict (fc_net [Fin 1, Fin 1, Fin 1] [Fin 0] [True, True, True]))
       [(2, state_dict (fc_net [Fin 2, Fin 0, Fin 4] [Fin 1] [True, False, True])),
        (2, state_dict (fc_net [Fin 3, Fin 5, Fin 0] [Fin 3] [True, True, False]))] = Inr A
     \<and> map_of (aggregated_masks A) ''fc.weight'' = Some (FloatT [Fin 1, Fin 1, Fin 1])
     \<and> map_of (aggregated_params A) ''fc.weight_mask'' = Some (FloatT [Fin 1, Fin 1, Fin 1])
     \<and> map_of (aggregated_params A) ''fc.weight'' = Some (FloatT [Fin (5/2), Fin 5, Fin 4])"
proof -
  have "(2::nat) \<le> 2" and "5 * (2::nat) \<le> 2 ^ 24"
    and "real 2 * \<bar>0::real\<bar> \<le> 2 ^ 127" by simp_all
  from two_client_example [OF this this(3)] show ?thesis .
qed

section \<open>A round returns\<close>

text \<open>
  The properties above are read off a round that has returned. This section shows that a
  round does return, without an exception, when its inputs have the form the driver gives
  them: the global model has at least one child, its children have distinct names, each
  mask has the shape of its weight, every client reports the state of a network with
  children of the same names and sizes, at least one client is sampled,
  \<^verbatim>\<open>_weights_by_layer\<close> gives a finite target for every child, and \<^verbatim>\<open>torch.topk\<close>
  answers as the library promises.
\<close>

subsection \<open>Accumulation\<close>

lemma foldE_total:
  assumes "P s"
    and "\<And>x t. x \<in> set xs \<Longrightarrow> P t \<Longrightarrow> \<exists>t'. f x t = Inr t' \<and> P t'"
  shows "\<exists>s'. foldE f xs s = Inr s' \<and> P s'"
  using assms
proof (induction xs arbitrary: s)
  case Nil
  then show ?case by simp
next
  case (Cons x xs)
  from Cons.prems(2) [OF _ Cons.prems(1), of x] obtain t where t: "f x s = Inr t" and p: "P t"
    by auto
  have "\<exists>s'. foldE f xs t = Inr s' \<and> P s'"
  proof (rule Cons.IH [OF p])
    fix y u assume "y \<in> set xs" "P u"
    then show "\<exists>t'. f y u = Inr t' \<and> P t'" using Cons.prems(2) by simp
  qed
  with t show ?case by simp
qed

lemma init_fold_values:
  assumes "distinct (map fst gp)"
  shows "(k, t) \<in> set gp \<Longrightarrow> \<not> endswith k ''_mask'' \<Longrightarrow>
      map_of (aggregated_params (fold init_step gp A)) k = Some (zeros_float t)
    \<and> map_of (aggregated_params_for_mask (fold init_step gp A)) k = Some (zeros_float t)
    \<and> (needs_mask k \<longrightarrow> map_of (aggregated_masks (fold init_step gp A)) k = Some (zeros_like t))"
  using assms
proof (induction gp arbitrary: A)
  case Nil
  then show ?case by simp
next
  case (Cons e gp)
  show ?case
  proof (cases "e = (k, t)")
    case True
    with Cons.prems have nk: "k \<notin> keys gp" by (auto simp: keys_def)
    let ?B = "init_step e A"
    have B: "map_of (aggregated_params ?B) k = Some (zeros_float t)
      \<and> map_of (aggregated_params_for_mask ?B) k = Some (zeros_float t)
      \<and> (needs_mask k \<longrightarrow> map_of (aggregated_masks ?B) k = Some (zeros_like t))"
      using True Cons.prems(2) by (simp add: init_step_def update_conv')
    have frame: "map_of (aggregated_params (fold init_step gp C)) k = map_of (aggregated_params C) k
      \<and> map_of (aggregated_params_for_mask (fold init_step gp C)) k
          = map_of (aggregated_params_for_mask C) k
      \<and> map_of (aggregated_masks (fold init_step gp C)) k = map_of (aggregated_masks C) k"
      for C
      using nk
    proof (induction gp arbitrary: C)
      case Nil
      then show ?case by simp
    next
      case (Cons x xs)
      obtain k' v where x: "x = (k', v)" by (cases x)
      from Cons.prems have "k \<noteq> k'" "k \<notin> keys xs" by (auto simp: x keys_def)
      with Cons.IH [of "init_step x C"] show ?case
        by (simp add: x init_step_def update_conv')
    qed
    from frame [of ?B] B show ?thesis by simp
  next
    case False
    with Cons.prems have "(k, t) \<in> set gp" "distinct (map fst gp)" by auto
    from Cons.IH [OF this(1) Cons.prems(2) this(2)] show ?thesis by simp
  qed
qed

lemma distinct_keys_state_dict:
  "distinct (map lname n) \<Longrightarrow> distinct (map fst (state_dict n))"
proof (induction n)
  case Nil
  then show ?case by (simp add: state_dict_def)
next
  case (Cons l n)
  then have d: "distinct (map fst (state_dict n))" and nl: "lname l \<notin> lname ` set n" by simp_all
  have "k \<notin> set (map fst (state_dict n))" if "k \<in> set (layer_keys l)" for k
  proof
    assume "k \<in> set (map fst (state_dict n))"
    then obtain l' where "l' \<in> set n" "k \<in> set (layer_keys l')"
      unfolding keys_state_dict' by auto
    with that nl show False by (auto simp: layer_keys_def)
  qed
  with d have "distinct (layer_keys l @ map fst (state_dict n))"
    by (auto simp: layer_keys_def)
  then show ?case unfolding keys_state_dict' by simp
qed

lemma init_accumulators_shape:
  assumes "distinct (map lname g)" and "\<forall>l \<in> set g. length (weight_mask l) = length (weight l)"
  shows "acc_shape g (init_accumulators (state_dict g))"
  unfolding acc_shape_def
proof
  fix l assume l: "l \<in> set g"
  note d = distinct_keys_state_dict [OF assms(1)]
  from map_of_state_dict [OF assms(1) l]
  have w: "(lname l @ ''.weight'', FloatT (weight l)) \<in> set (state_dict g)"
    and b: "(lname l @ ''.bias'', FloatT (bias l)) \<in> set (state_dict g)"
    by (auto dest: map_of_SomeD)
  from init_fold_values [OF d w, of "\<lparr>aggregated_params = [], aggregated_params_for_mask = [],
      aggregated_masks = []\<rparr>"]
       init_fold_values [OF d b, of "\<lparr>aggregated_params = [], aggregated_params_for_mask = [],
      aggregated_masks = []\<rparr>"]
  show "(\<exists>t. map_of (aggregated_params (init_accumulators (state_dict g))) (lname l @ ''.weight'') = Some t
             \<and> numel t = length (weight l))
      \<and> (\<exists>t. map_of (aggregated_params_for_mask (init_accumulators (state_dict g))) (lname l @ ''.weight'') = Some t
             \<and> numel t = length (weight l))
      \<and> (\<exists>t. map_of (aggregated_masks (init_accumulators (state_dict g))) (lname l @ ''.weight'') = Some t
             \<and> numel t = length (weight l))
      \<and> (\<exists>t. map_of (aggregated_params (init_accumulators (state_dict g))) (lname l @ ''.bias'') = Some t
             \<and> numel t = length (bias l))
      \<and> (\<exists>t. map_of (aggregated_params_for_mask (init_accumulators (state_dict g))) (lname l @ ''.bias'') = Some t
             \<and> numel t = length (bias l))"
    by (simp add: init_accumulators_def zeros_float_def)
qed

lemma shape_le_refl [simp]: "shape_le d d"
  by (simp add: shape_le_def)

lemma shape_leD:
  "shape_le d d' \<Longrightarrow> map_of d k = Some t \<Longrightarrow> \<exists>t'. map_of d' k = Some t' \<and> numel t' = numel t"
  by (simp add: shape_le_def)

lemma shape_le_trans:
  assumes "shape_le d d'" and "shape_le d' d''"
  shows "shape_le d d''"
  unfolding shape_le_def
proof (intro allI impI)
  fix k t assume "map_of d k = Some t"
  from shape_leD [OF assms(1) this] obtain t' where "map_of d' k = Some t'" "numel t' = numel t"
    by blast
  with shape_leD [OF assms(2) this(1)] show "\<exists>t'. map_of d'' k = Some t' \<and> numel t' = numel t"
    by auto
qed

lemma shape_le_entry:
  assumes "shape_le d d'" and "\<exists>t. map_of d k = Some t \<and> numel t = n"
  shows "\<exists>t. map_of d' k = Some t \<and> numel t = n"
proof -
  from assms(2) obtain t where t: "map_of d k = Some t" "numel t = n" by blast
  from shape_leD [OF assms(1) t(1)] t(2) show ?thesis by auto
qed

lemma shape_le_update:
  "map_of d k = Some t \<Longrightarrow> numel t' = numel t \<Longrightarrow> shape_le d (AList.update k t' d)"
  by (auto simp: shape_le_def update_conv')

lemma add_to_ok:
  assumes "map_of d name = Some t" and "length v = numel t"
  shows "\<exists>d'. add_to d name (Inr v) = Inr d' \<and> shape_le d d'"
  using assms by (simp add: add_to_def inplace_def shape_le_update)

lemma acc_shape_mono:
  assumes "acc_shape g A"
    and "shape_le (aggregated_params A) (aggregated_params B)"
    and "shape_le (aggregated_params_for_mask A) (aggregated_params_for_mask B)"
    and "shape_le (aggregated_masks A) (aggregated_masks B)"
  shows "acc_shape g B"
  unfolding acc_shape_def
proof
  fix l assume "l \<in> set g"
  with assms(1) have a:
    "\<exists>t. map_of (aggregated_params A) (lname l @ ''.weight'') = Some t \<and> numel t = length (weight l)"
    "\<exists>t. map_of (aggregated_params_for_mask A) (lname l @ ''.weight'') = Some t \<and> numel t = length (weight l)"
    "\<exists>t. map_of (aggregated_masks A) (lname l @ ''.weight'') = Some t \<and> numel t = length (weight l)"
    "\<exists>t. map_of (aggregated_params A) (lname l @ ''.bias'') = Some t \<and> numel t = length (bias l)"
    "\<exists>t. map_of (aggregated_params_for_mask A) (lname l @ ''.bias'') = Some t \<and> numel t = length (bias l)"
    by (simp_all add: acc_shape_def)
  from shape_le_entry [OF assms(2) a(1)] have 1: "\<exists>t. map_of (aggregated_params B) (lname l @ ''.weight'') = Some t
      \<and> numel t = length (weight l)" .
  from shape_le_entry [OF assms(3) a(2)] have 2: "\<exists>t. map_of (aggregated_params_for_mask B) (lname l @ ''.weight'') = Some t
      \<and> numel t = length (weight l)" .
  from shape_le_entry [OF assms(4) a(3)] have 3: "\<exists>t. map_of (aggregated_masks B) (lname l @ ''.weight'') = Some t
      \<and> numel t = length (weight l)" .
  from shape_le_entry [OF assms(2) a(4)] have 4: "\<exists>t. map_of (aggregated_params B) (lname l @ ''.bias'') = Some t
      \<and> numel t = length (bias l)" .
  from shape_le_entry [OF assms(3) a(5)] have 5: "\<exists>t. map_of (aggregated_params_for_mask B) (lname l @ ''.bias'') = Some t
      \<and> numel t = length (bias l)" .
  from 1 2 3 4 5 show "(\<exists>t. map_of (aggregated_params B) (lname l @ ''.weight'') = Some t
             \<and> numel t = length (weight l))
      \<and> (\<exists>t. map_of (aggregated_params_for_mask B) (lname l @ ''.weight'') = Some t
             \<and> numel t = length (weight l))
      \<and> (\<exists>t. map_of (aggregated_masks B) (lname l @ ''.weight'') = Some t
             \<and> numel t = length (weight l))
      \<and> (\<exists>t. map_of (aggregated_params B) (lname l @ ''.bias'') = Some t
             \<and> numel t = length (bias l))
      \<and> (\<exists>t. map_of (aggregated_params_for_mask B) (lname l @ ''.bias'') = Some t
             \<and> numel t = length (bias l))" by blast
qed

lemma strip5_weight_mask: "strip5 (n @ ''.weight_mask'') = n @ ''.weight''"
  by (simp add: strip5_def)

lemma decode_fold_layers:
  "fold (decode_step bf16 a) (state_dict cn) D = fold (decode_layer bf16 a) cn D"
proof (induction cn arbitrary: D)
  case Nil
  then show ?case by (simp add: state_dict_def)
next
  case (Cons c cn)
  obtain W M where D: "D = (W, M)" by (cases D)
  have "fold (decode_step bf16 a) (layer_items c) D = decode_layer bf16 a c D"
    by (simp add: D layer_items_def decode_step_def decode_layer_def strip5_weight_mask)
  with Cons.IH show ?case by (simp add: state_dict_def)
qed

lemma set_update_cases:
  "(k', v') \<in> set (AList.update k v al) \<Longrightarrow> (k', v') = (k, v) \<or> (k', v') \<in> set al"
  by (induction al) (auto split: if_splits)

lemma numel_received: "numel (received bf16 a t) = numel t"
  by (simp add: received_def)

lemma decode_layers_from:
  "from_layers cn0 D \<Longrightarrow> set cn \<subseteq> set cn0 \<Longrightarrow> from_layers cn0 (fold (decode_layer bf16 a) cn D)"
proof (induction cn arbitrary: D)
  case Nil
  then show ?case by simp
next
  case (Cons c cn)
  from Cons.prems(2) have c: "c \<in> set cn0" and r: "set cn \<subseteq> set cn0" by simp_all
  have "from_layers cn0 (decode_layer bf16 a c D)"
    unfolding from_layers_def decode_layer_def fst_conv snd_conv
  proof (intro conjI ballI)
    fix e assume e: "e \<in> set (AList.update (lname c @ ''.bias'') (received bf16 a (FloatT (bias c)))
        (AList.update (lname c @ ''.weight'') (received bf16 a (FloatT (weight c))) (fst D)))"
    obtain name v where nv: "e = (name, v)" by (cases e)
    from e [unfolded nv] have "(name, v) = (lname c @ ''.bias'', received bf16 a (FloatT (bias c)))
      \<or> (name, v) = (lname c @ ''.weight'', received bf16 a (FloatT (weight c)))
      \<or> (name, v) \<in> set (fst D)"
      by (auto dest!: set_update_cases)
    with Cons.prems(1) c show "case e of (name, v) \<Rightarrow> \<exists>c \<in> set cn0.
          (name = lname c @ ''.weight'' \<and> numel v = length (weight c))
        \<or> (name = lname c @ ''.bias'' \<and> numel v = length (bias c))"
      unfolding nv from_layers_def by (auto simp: numel_received)
  next
    fix e assume e: "e \<in> set (AList.update (lname c @ ''.weight'') (BoolT (weight_mask c)) (snd D))"
    obtain name v where nv: "e = (name, v)" by (cases e)
    from e [unfolded nv] have "(name, v) = (lname c @ ''.weight'', BoolT (weight_mask c))
      \<or> (name, v) \<in> set (snd D)"
      by (auto dest!: set_update_cases)
    with Cons.prems(1) c show "case e of (name, v) \<Rightarrow> \<exists>c \<in> set cn0.
          name = lname c @ ''.weight'' \<and> v = BoolT (weight_mask c)"
      unfolding nv from_layers_def by auto
  qed
  from Cons.IH [OF this r] show ?case by simp
qed

lemma decode_client_from:
  "from_layers cn (decode_client bf16 a (state_dict cn))"
  unfolding decode_client_def decode_fold_layers
  by (rule decode_layers_from) (simp_all add: from_layers_def)

lemma add_to_entry_ok:
  assumes "\<exists>t. map_of d name = Some t \<and> numel t = n" and "length v = n"
  shows "\<exists>d'. add_to d name (Inr v) = Inr d' \<and> shape_le d d'"
proof -
  from assms(1) obtain t where "map_of d name = Some t" "numel t = n" by blast
  with assms(2) show ?thesis by (simp add: add_to_ok)
qed

lemma partner_layer:
  "list_all2 same_shape g cn \<Longrightarrow> c \<in> set cn \<Longrightarrow> \<exists>l \<in> set g. same_shape l c"
proof -
  assume a: "list_all2 same_shape g cn" and c: "c \<in> set cn"
  from c obtain i where i: "i < length cn" and ci: "cn ! i = c" by (auto simp: in_set_conv_nth)
  from a have len: "length g = length cn" by (rule list_all2_lengthD)
  from a i len have "same_shape (g ! i) (cn ! i)" by (simp add: list_all2_nthD2)
  moreover from i len have "g ! i \<in> set g" by simp
  ultimately show ?thesis using ci by blast
qed

lemma same_name_same_layer:
  assumes "distinct (map lname g)" "l \<in> set g" "l' \<in> set g" "lname l = lname l'"
  shows "l = l'"
  using assms by (metis distinct_map inj_onD)

lemma length_scaled [simp]: "length (scaled ts xs) = length xs"
  by (simp add: scaled_def)

lemma client_step_total:
  assumes shp: "acc_shape g A" and d: "distinct (map lname g)"
    and wf: "\<forall>l \<in> set g. length (weight_mask l) = length (weight l)"
    and fl: "from_layers cn (W, M)" and sh: "list_all2 same_shape g cn"
    and e: "(name, cl_param) \<in> set W"
  shows "\<exists>A'. client_step a (state_dict g) ts M (name, cl_param) A = Inr A' \<and> acc_shape g A'"
proof -
  from fl e obtain c where c: "c \<in> set cn"
    and nc: "(name = lname c @ ''.weight'' \<and> numel cl_param = length (weight c))
        \<or> (name = lname c @ ''.bias'' \<and> numel cl_param = length (bias c))"
    unfolding from_layers_def by fastforce
  from partner_layer [OF sh c] obtain l where l: "l \<in> set g" and sl: "same_shape l c" by blast
  from sl have nl: "lname c = lname l" and lw: "length (weight c) = length (weight l)"
    and lb: "length (bias c) = length (bias l)" by (simp_all add: same_shape_def)
  from shp l have sw: "\<exists>t. map_of (aggregated_params A) (lname l @ ''.weight'') = Some t
        \<and> numel t = length (weight l)"
    and sfw: "\<exists>t. map_of (aggregated_params_for_mask A) (lname l @ ''.weight'') = Some t
        \<and> numel t = length (weight l)"
    and smw: "\<exists>t. map_of (aggregated_masks A) (lname l @ ''.weight'') = Some t
        \<and> numel t = length (weight l)"
    and sb: "\<exists>t. map_of (aggregated_params A) (lname l @ ''.bias'') = Some t
        \<and> numel t = length (bias l)"
    by (simp_all add: acc_shape_def)
  have unmasked: "\<exists>A'. client_step a (state_dict g) ts M (name, cl_param) A = Inr A' \<and> acc_shape g A'"
    if none: "map_of M name = None"
  proof -
    from nc nl lw lb sw sb have "\<exists>t. map_of (aggregated_params A) name = Some t
        \<and> numel t = numel cl_param" by auto
    from add_to_entry_ok [OF this, of "scaled ts (floats cl_param)"] obtain ap where
      ap: "add_to (aggregated_params A) name (Inr (scaled ts (floats cl_param))) = Inr ap"
      and le: "shape_le (aggregated_params A) ap" by auto
    have "acc_shape g (A\<lparr>aggregated_params := ap\<rparr>)"
      by (rule acc_shape_mono [OF shp]) (simp_all add: le)
    with ap none show ?thesis by (simp add: client_step_def)
  qed
  show ?thesis
  proof (cases "map_of M name")
    case None
    then show ?thesis by (rule unmasked)
  next
    case (Some cl_mask)
    then have "(name, cl_mask) \<in> set M" by (rule map_of_SomeD)
    with fl obtain c' where c': "c' \<in> set cn" and nc': "name = lname c' @ ''.weight''"
      and cm: "cl_mask = BoolT (weight_mask c')"
      unfolding from_layers_def by fastforce
    from nc nc' have nw: "name = lname c @ ''.weight''" and np: "numel cl_param = length (weight c)"
      by auto
    from partner_layer [OF sh c'] obtain l' where l': "l' \<in> set g" and sl': "same_shape l' c'"
      by blast
    from nw nc' nl sl' have "lname l = lname l'" by (simp add: same_shape_def)
    from same_name_same_layer [OF d l l' this] sl' wf l
    have lm: "length (weight_mask c') = length (weight l)" by (simp add: same_shape_def)
    have name: "name = lname l @ ''.weight''" using nw nl by simp
    note G = map_of_state_dict [OF d l]
    have gm: "map_of (state_dict g) (name @ ''_mask'') = Some (BoolT (weight_mask l))"
      using G by (simp add: name)
    have gw: "map_of (state_dict g) name = Some (FloatT (weight l))"
      using G by (simp add: name)
    let ?n = "length (weight l)"
    let ?v = "map2 fmul (scaled ts (floats cl_param)) (floats cl_mask)"
    have tm: "tmul (scaled ts (floats cl_param)) (floats cl_mask) = Inr ?v"
      and lv: "length ?v = ?n"
      using np lw lm by (simp_all add: tmul_def broadcast_def cm)
    from add_to_entry_ok [OF sw [folded name] lv] obtain ap where
      ap: "add_to (aggregated_params A) name (Inr ?v) = Inr ap"
      and le1: "shape_le (aggregated_params A) ap" by auto
    from add_to_entry_ok [OF sfw [folded name] lv] obtain apfm where
      apfm: "add_to (aggregated_params_for_mask A) name (Inr ?v) = Inr apfm"
      and le2: "shape_le (aggregated_params_for_mask A) apfm" by auto
    have lmv: "length (scaled ts (floats cl_mask)) = ?n" using lm by (simp add: cm)
    from add_to_entry_ok [OF smw [folded name] lmv] obtain am where
      am: "add_to (aggregated_masks A) name (Inr (scaled ts (floats cl_mask))) = Inr am"
      and le3: "shape_le (aggregated_masks A) am" by auto
    show ?thesis
    proof (cases "remember_old a")
      case False
      have "acc_shape g \<lparr>aggregated_params = ap, aggregated_params_for_mask = apfm,
          aggregated_masks = am\<rparr>"
        by (rule acc_shape_mono [OF shp]) (simp_all add: le1 le2 le3)
      with Some gm tm ap apfm am False show ?thesis
        by (auto simp: client_step_def)
    next
      case True
      let ?sv = "BoolT (map2 (\<lambda>x y. x \<and> \<not> y) (weight_mask l) (weight_mask c'))"
      have mz: "masked_zero (BoolT (weight_mask l)) cl_mask = Inr ?sv"
        using lm wf l by (simp add: cm)
      let ?u = "map2 fmul (scaled ts (floats (FloatT (weight l)))) (floats ?sv)"
      have tu: "tmul (scaled ts (floats (FloatT (weight l)))) (floats ?sv) = Inr ?u"
        and lu: "length ?u = ?n" and ls: "length (scaled ts (floats ?sv)) = ?n"
        using lm wf l by (simp_all add: tmul_def broadcast_def)
      from shape_le_entry [OF le2 sfw [folded name]]
      have "\<exists>t. map_of apfm name = Some t \<and> numel t = ?n" .
      from add_to_entry_ok [OF this lu] obtain apfm' where
        apfm': "add_to apfm name (Inr ?u) = Inr apfm'" and le4: "shape_le apfm apfm'" by auto
      from shape_le_entry [OF le3 smw [folded name]]
      have "\<exists>t. map_of am name = Some t \<and> numel t = ?n" .
      from add_to_entry_ok [OF this ls] obtain am' where
        am': "add_to am name (Inr (scaled ts (floats ?sv))) = Inr am'"
        and le5: "shape_le am am'" by auto
      have "acc_shape g \<lparr>aggregated_params = ap, aggregated_params_for_mask = apfm',
          aggregated_masks = am'\<rparr>"
        by (rule acc_shape_mono [OF shp])
           (simp_all add: le1 shape_le_trans [OF le2 le4] shape_le_trans [OF le3 le5])
      with Some gm gw tm ap apfm am True mz tu apfm' am' show ?thesis
        by (auto simp: client_step_def)
    qed
  qed
qed

lemma accumulate_total:
  assumes d: "distinct (map lname g)"
    and wf: "\<forall>l \<in> set g. length (weight_mask l) = length (weight l)"
    and cl: "\<forall>c \<in> set clients. \<exists>cn. snd c = state_dict cn \<and> list_all2 same_shape g cn"
  shows "\<exists>A. accumulate bf16 a (state_dict g) clients = Inr A \<and> acc_shape g A"
  unfolding accumulate_def
proof (rule foldE_total [where P = "acc_shape g"])
  show "acc_shape g (init_accumulators (state_dict g))"
    using d wf by (rule init_accumulators_shape)
next
  fix c A assume c: "c \<in> set clients" and A: "acc_shape g A"
  obtain ts sd where cs: "c = (ts, sd)" by (cases c)
  from cl c cs obtain cn where sd: "sd = state_dict cn" and sh: "list_all2 same_shape g cn"
    by auto
  obtain W M where D: "decode_client bf16 a (state_dict cn) = (W, M)"
    by (cases "decode_client bf16 a (state_dict cn)")
  from decode_client_from [of cn bf16 a] D have fl: "from_layers cn (W, M)" by simp
  have "\<exists>A'. foldE (client_step a (state_dict g) ts M) W A = Inr A' \<and> acc_shape g A'"
  proof (rule foldE_total [where P = "acc_shape g", OF A])
    fix e B assume e: "e \<in> set W" and B: "acc_shape g B"
    obtain name cl_param where "e = (name, cl_param)" by (cases e)
    with client_step_total [OF B d wf fl sh, of name cl_param a ts] e
    show "\<exists>B'. client_step a (state_dict g) ts M e B = Inr B' \<and> acc_shape g B'" by simp
  qed
  then show "\<exists>A'. client_accumulate bf16 a (state_dict g) c A = Inr A' \<and> acc_shape g A'"
    by (simp add: client_accumulate_def cs sd D)
qed

subsection \<open>Reduction and the masks as parameters\<close>

lemma key_of_layer:
  assumes "k \<in> keys (state_dict g)"
  shows "\<exists>l \<in> set g. k = lname l @ ''.weight'' \<or> k = lname l @ ''.bias''
           \<or> k = lname l @ ''.weight_mask''"
proof -
  from assms have "k \<in> set (concat (map layer_keys g))"
    by (simp add: keys_def flip: keys_state_dict')
  then show ?thesis by (auto simp: layer_keys_def)
qed

lemma reduce_masked_ok:
  assumes "length p = length m" and "length pfm = length m"
  shows "\<exists>p2 m3. reduce_masked a p pfm m = Inr (p2, p2, m3)
           \<and> length p2 = length m \<and> length m3 = length m"
  using assms by (simp add: reduce_masked_def tdiv_def inplace_def Let_def)

lemma reduce_step_total:
  assumes shp: "acc_shape g B"
    and km: "keys (aggregated_masks B)
               = {k \<in> keys (state_dict g). \<not> endswith k ''_mask'' \<and> needs_mask k}"
    and k: "name \<in> keys (state_dict g)" "\<not> endswith name ''_mask''"
  shows "\<exists>B'. reduce_step a t name B = Inr B' \<and> acc_shape g B'"
proof -
  from key_of_layer [OF k(1)] k(2) obtain l where l: "l \<in> set g"
    and n: "name = lname l @ ''.weight'' \<or> name = lname l @ ''.bias''" by auto
  from shp l have sw: "\<exists>t. map_of (aggregated_params B) (lname l @ ''.weight'') = Some t
        \<and> numel t = length (weight l)"
    and sfw: "\<exists>t. map_of (aggregated_params_for_mask B) (lname l @ ''.weight'') = Some t
        \<and> numel t = length (weight l)"
    and smw: "\<exists>t. map_of (aggregated_masks B) (lname l @ ''.weight'') = Some t
        \<and> numel t = length (weight l)"
    and sb: "\<exists>t. map_of (aggregated_params B) (lname l @ ''.bias'') = Some t
        \<and> numel t = length (bias l)"
    by (simp_all add: acc_shape_def)
  from n show ?thesis
  proof
    assume nb: "name = lname l @ ''.bias''"
    with km have "name \<notin> keys (aggregated_masks B)" by simp
    then have none: "map_of (aggregated_masks B) name = None"
      by (metis map_of_in_keys not_Some_eq)
    from sb nb obtain p where p: "map_of (aggregated_params B) name = Some p" by auto
    let ?p' = "FloatT (map (\<lambda>x. fdiv x (Fin (real t))) (floats p))"
    have "shape_le (aggregated_params B) (AList.update name ?p' (aggregated_params B))"
      by (rule shape_le_update [OF p]) simp
    then have "acc_shape g (B\<lparr>aggregated_params := AList.update name ?p' (aggregated_params B)\<rparr>)"
      by (intro acc_shape_mono [OF shp]) simp_all
    with p none show ?thesis by (simp add: reduce_step_def)
  next
    assume nw: "name = lname l @ ''.weight''"
    from sw sfw smw nw obtain p pfm m where
      p: "map_of (aggregated_params B) name = Some p" "numel p = length (weight l)"
      and pfm: "map_of (aggregated_params_for_mask B) name = Some pfm"
        "numel pfm = length (weight l)"
      and m: "map_of (aggregated_masks B) name = Some m" "numel m = length (weight l)"
      by auto
    from reduce_masked_ok [of "floats p" "floats m" "floats pfm" a] p(2) pfm(2) m(2)
    obtain p2 m3 where r: "reduce_masked a (floats p) (floats pfm) (floats m) = Inr (p2, p2, m3)"
      and l2: "length p2 = length (weight l)" and l3: "length m3 = length (weight l)" by auto
    let ?B' = "\<lparr>aggregated_params = AList.update name (FloatT p2) (aggregated_params B),
                 aggregated_params_for_mask =
                   AList.update name (FloatT p2) (aggregated_params_for_mask B),
                 aggregated_masks = AList.update name (FloatT m3) (aggregated_masks B)\<rparr>"
    have "acc_shape g ?B'"
    proof (rule acc_shape_mono [OF shp])
      show "shape_le (aggregated_params B) (aggregated_params ?B')"
        using shape_le_update [OF p(1), of "FloatT p2"] l2 p(2) by simp
      show "shape_le (aggregated_params_for_mask B) (aggregated_params_for_mask ?B')"
        using shape_le_update [OF pfm(1), of "FloatT p2"] l2 pfm(2) by simp
      show "shape_le (aggregated_masks B) (aggregated_masks ?B')"
        using shape_le_update [OF m(1), of "FloatT m3"] l3 m(2) by simp
    qed
    with p pfm m r show ?thesis by (simp add: reduce_step_def)
  qed
qed

lemma aggregate_total:
  assumes d: "distinct (map lname g)"
    and wf: "\<forall>l \<in> set g. length (weight_mask l) = length (weight l)"
    and cl: "\<forall>c \<in> set clients. \<exists>cn. snd c = state_dict cn \<and> list_all2 same_shape g cn"
  shows "\<exists>A. aggregate bf16 a (state_dict g) clients = Inr A
    \<and> (\<forall>l \<in> set g.
          (\<exists>t. map_of (aggregated_params A) (lname l @ ''.weight'') = Some t
               \<and> numel t = length (weight l))
        \<and> (\<exists>t. map_of (aggregated_params A) (lname l @ ''.bias'') = Some t
               \<and> numel t = length (bias l))
        \<and> (\<exists>t. map_of (aggregated_params_for_mask A) (lname l @ ''.weight'') = Some t
               \<and> numel t = length (weight l))
        \<and> (\<exists>t. map_of (aggregated_params_for_mask A) (lname l @ ''.bias'') = Some t
               \<and> numel t = length (bias l))
        \<and> (\<exists>t. map_of (aggregated_params_for_mask A) (lname l @ ''.weight_mask'') = Some t
               \<and> numel t = length (weight l)))
    \<and> keys (aggregated_params A) \<subseteq> keys (state_dict g)
    \<and> keys (aggregated_params_for_mask A) \<subseteq> keys (state_dict g)"
proof -
  let ?gp = "state_dict g"
  from accumulate_total [OF d wf cl, of bf16 a] obtain A1 where
    acc: "accumulate bf16 a ?gp clients = Inr A1" and s1: "acc_shape g A1" by blast
  note k1 = accumulate_keys [OF acc]
  from k1(1) have kp1: "keys (aggregated_params A1) = {k \<in> keys ?gp. \<not> endswith k ''_mask''}"
    and km1: "keys (aggregated_masks A1)
               = {k \<in> keys ?gp. \<not> endswith k ''_mask'' \<and> needs_mask k}"
    by (simp_all add: acc_keys_def init_accumulators_key_sets)
  let ?t = "sum_list (map fst clients)"
  have "\<exists>A2. foldE (reduce_step a ?t) (map fst (aggregated_params A1)) A1 = Inr A2
      \<and> (acc_shape g A2 \<and> acc_keys A2 = acc_keys A1)"
  proof (rule foldE_total [where P = "\<lambda>B. acc_shape g B \<and> acc_keys B = acc_keys A1"])
    show "acc_shape g A1 \<and> acc_keys A1 = acc_keys A1" using s1 by simp
  next
    fix name B assume n: "name \<in> set (map fst (aggregated_params A1))"
      and B: "acc_shape g B \<and> acc_keys B = acc_keys A1"
    from n have "name \<in> keys (aggregated_params A1)" by (simp add: keys_def)
    with kp1 have nk: "name \<in> keys ?gp" "\<not> endswith name ''_mask''" by simp_all
    from B km1 have km: "keys (aggregated_masks B)
               = {k \<in> keys ?gp. \<not> endswith k ''_mask'' \<and> needs_mask k}"
      by (simp add: acc_keys_def)
    from reduce_step_total [OF _ km nk, of a ?t] B obtain B' where
      st: "reduce_step a ?t name B = Inr B'" and sh: "acc_shape g B'" by blast
    from reduce_step_Inr(1) [OF st] B have "acc_keys B' = acc_keys A1" by simp
    with st sh show "\<exists>B'. reduce_step a ?t name B = Inr B'
        \<and> (acc_shape g B' \<and> acc_keys B' = acc_keys A1)" by blast
  qed
  then obtain A2 where red: "foldE (reduce_step a ?t) (map fst (aggregated_params A1)) A1 = Inr A2"
    and s2: "acc_shape g A2" and k2: "acc_keys A2 = acc_keys A1" by blast
  let ?A = "fold masks_step (aggregated_masks A2) A2"
  have agg: "aggregate bf16 a ?gp clients = Inr ?A"
    using acc red by (simp add: aggregate_def reduce_def masks_as_params_def)
  from reduce_fold_distinct [OF red k1(2)] have d2: "distinct (map fst (aggregated_masks A2))"
    by (simp add: acc_distinct_def)
  from k2 k1(1) have kp: "keys (aggregated_params A2) = {k \<in> keys ?gp. \<not> endswith k ''_mask''}"
    and kf: "keys (aggregated_params_for_mask A2) = {k \<in> keys ?gp. \<not> endswith k ''_mask''}"
    and km: "keys (aggregated_masks A2)
               = {k \<in> keys ?gp. \<not> endswith k ''_mask'' \<and> needs_mask k}"
    by (simp_all add: acc_keys_def init_accumulators_key_sets)
  have frame: "map_of (aggregated_params ?A) k = map_of (aggregated_params A2) k
      \<and> map_of (aggregated_params_for_mask ?A) k = map_of (aggregated_params_for_mask A2) k"
    if "\<not> endswith k ''_mask''" for k
  proof (rule masks_fold_frame(2))
    from that show "k \<notin> (\<lambda>n. n @ ''_mask'') ` fst ` set (aggregated_masks A2)"
      by (auto simp: endswith_append)
  qed
  have entries: "(\<exists>t. map_of (aggregated_params ?A) (lname l @ ''.weight'') = Some t
               \<and> numel t = length (weight l))
        \<and> (\<exists>t. map_of (aggregated_params ?A) (lname l @ ''.bias'') = Some t
               \<and> numel t = length (bias l))
        \<and> (\<exists>t. map_of (aggregated_params_for_mask ?A) (lname l @ ''.weight'') = Some t
               \<and> numel t = length (weight l))
        \<and> (\<exists>t. map_of (aggregated_params_for_mask ?A) (lname l @ ''.bias'') = Some t
               \<and> numel t = length (bias l))
        \<and> (\<exists>t. map_of (aggregated_params_for_mask ?A) (lname l @ ''.weight_mask'') = Some t
               \<and> numel t = length (weight l))" if l: "l \<in> set g" for l
  proof -
    from s2 l have e:
      "\<exists>t. map_of (aggregated_params A2) (lname l @ ''.weight'') = Some t \<and> numel t = length (weight l)"
      "\<exists>t. map_of (aggregated_params_for_mask A2) (lname l @ ''.weight'') = Some t \<and> numel t = length (weight l)"
      "\<exists>t. map_of (aggregated_masks A2) (lname l @ ''.weight'') = Some t \<and> numel t = length (weight l)"
      "\<exists>t. map_of (aggregated_params A2) (lname l @ ''.bias'') = Some t \<and> numel t = length (bias l)"
      "\<exists>t. map_of (aggregated_params_for_mask A2) (lname l @ ''.bias'') = Some t \<and> numel t = length (bias l)"
      by (simp_all add: acc_shape_def)
    from e(3) obtain m where m: "map_of (aggregated_masks A2) (lname l @ ''.weight'') = Some m"
      and lm: "numel m = length (weight l)" by blast
    from m have "(lname l @ ''.weight'', m) \<in> set (aggregated_masks A2)" by (rule map_of_SomeD)
    from masks_fold_entry [OF d2 this, of A2]
    have "map_of (aggregated_params_for_mask ?A) (lname l @ ''.weight_mask'') = Some m" by simp
    with lm e(1,2,4,5) frame [of "lname l @ ''.weight''"] frame [of "lname l @ ''.bias''"]
    show ?thesis by simp
  qed
  have sub: "keys (aggregated_params (fold masks_step ms B)) \<subseteq> K
      \<and> keys (aggregated_params_for_mask (fold masks_step ms B)) \<subseteq> K"
    if "keys (aggregated_params B) \<subseteq> K" "keys (aggregated_params_for_mask B) \<subseteq> K"
      "\<forall>n \<in> fst ` set ms. n @ ''_mask'' \<in> K" for ms B K
    using that
  proof (induction ms arbitrary: B)
    case Nil
    then show ?case by simp
  next
    case (Cons e ms)
    obtain n v where e: "e = (n, v)" by (cases e)
    from Cons.prems have "n @ ''_mask'' \<in> K" by (simp add: e)
    with Cons.prems have "keys (aggregated_params (masks_step e B)) \<subseteq> K"
      "keys (aggregated_params_for_mask (masks_step e B)) \<subseteq> K"
      by (simp_all add: e masks_step_pair keys_update)
    from Cons.IH [OF this] Cons.prems(3) show ?case by simp
  qed
  have "\<forall>n \<in> fst ` set (aggregated_masks A2). n @ ''_mask'' \<in> keys ?gp"
  proof
    fix n assume "n \<in> fst ` set (aggregated_masks A2)"
    with km have n: "n \<in> keys ?gp" "\<not> endswith n ''_mask''" "needs_mask n"
      by (simp_all add: keys_def)
    from key_of_layer [OF n(1)] n(2,3) obtain l where l: "l \<in> set g"
      and nl: "n = lname l @ ''.weight''" by auto
    from map_of_state_dict [OF d l] have "lname l @ ''.weight_mask'' \<in> keys ?gp"
      by (auto intro: map_of_in_keys)
    then show "n @ ''_mask'' \<in> keys ?gp" by (simp add: nl)
  qed
  from sub [OF _ _ this, of A2] kp kf
  have "keys (aggregated_params ?A) \<subseteq> keys ?gp"
    "keys (aggregated_params_for_mask ?A) \<subseteq> keys ?gp" by auto
  with agg entries show ?thesis by blast
qed

subsection \<open>Loading, pruning and the last loop\<close>

lemma same_shape_refl [simp]: "same_shape l l"
  by (simp add: same_shape_def)

lemma same_shape_trans: "same_shape a b \<Longrightarrow> same_shape b c \<Longrightarrow> same_shape a c"
  by (simp add: same_shape_def)

lemma same_shape_names: "list_all2 same_shape n n' \<Longrightarrow> map lname n' = map lname n"
  by (induction rule: list_all2_induct) (simp_all add: same_shape_def)

lemma same_shape_masks:
  assumes "list_all2 same_shape n n'"
    and "\<forall>l \<in> set n. length (weight_mask l) = length (weight l)"
  shows "\<forall>l \<in> set n'. length (weight_mask l) = length (weight l)"
  using assms by (induction rule: list_all2_induct) (simp_all add: same_shape_def)

lemma same_shape_keys:
  assumes "map lname n' = map lname n"
  shows "keys (state_dict n') = keys (state_dict n)"
proof -
  have "map layer_keys m = map (\<lambda>s. [s @ ''.weight'', s @ ''.bias'', s @ ''.weight_mask''])
      (map lname m)" for m
    by (simp add: layer_keys_def)
  from this [of n'] this [of n] assms have "map layer_keys n' = map layer_keys n"
    by (simp only:)
  then have "map fst (state_dict n') = map fst (state_dict n)"
    by (simp only: keys_state_dict')
  then show ?thesis by (metis keys_def set_map)
qed

lemma load_layer_shape: "load_layer sd l = Inr l' \<Longrightarrow> same_shape l l'"
  by (auto simp: load_layer_def same_shape_def split: option.splits if_splits)

lemma load_state_dict_total:
  assumes ks: "keys sd \<subseteq> keys (state_dict n)"
    and en: "\<forall>l \<in> set n.
        (\<exists>t. map_of sd (lname l @ ''.weight'') = Some t \<and> numel t = length (weight l))
      \<and> (\<exists>t. map_of sd (lname l @ ''.bias'') = Some t \<and> numel t = length (bias l))
      \<and> (\<exists>t. map_of sd (lname l @ ''.weight_mask'') = Some t
             \<and> numel t = length (weight_mask l))"
  shows "\<exists>n'. load_state_dict sd n = Inr n' \<and> list_all2 same_shape n n'"
proof -
  have "\<exists>l'. load_layer sd l = Inr l'" if "l \<in> set n" for l
  proof -
    from en that obtain w b m where
      "map_of sd (lname l @ ''.weight'') = Some w" "numel w = length (weight l)"
      "map_of sd (lname l @ ''.bias'') = Some b" "numel b = length (bias l)"
      "map_of sd (lname l @ ''.weight_mask'') = Some m" "numel m = length (weight_mask l)"
      by blast
    then show ?thesis by (simp add: load_layer_def)
  qed
  from mapE_all_Inr [of n "load_layer sd", OF this] obtain n' where
    m: "mapE (load_layer sd) n = Inr n'" by blast
  from ks have "list_all (\<lambda>k. k \<in> set (map fst (state_dict n))) (map fst sd)"
    by (auto simp: list_all_iff keys_def)
  with m have ld: "load_state_dict sd n = Inr n'" by (simp add: load_state_dict_def)
  have "list_all2 same_shape n n'"
  proof (rule list_all2_all_nthI)
    show "length n = length n'" using mapE_Inr_length [OF m] by simp
    fix i assume i: "i < length n"
    from load_layer_shape [OF mapE_Inr_nth [OF m i]] show "same_shape (n ! i) (n' ! i)" .
  qed
  with ld show ?thesis by blast
qed

lemma model_sparsity_returns: "n \<noteq> [] \<Longrightarrow> \<exists>s. model_sparsity f32 n = Inr s"
proof (cases n)
  case Nil
  then show "n \<noteq> [] \<Longrightarrow> ?thesis" by simp
next
  case (Cons l ls)
  then have "(lname l @ ''.weight_mask'', BoolT (weight_mask l)) \<in> set (named_buffers n)"
    by (simp add: named_buffers_def)
  then have "\<exists>e \<in> set (named_buffers n). endswith (fst e) ''mask''"
    by (rule rev_bexI) simp
  then have "filter (\<lambda>e. endswith (fst e) ''mask'') (named_buffers n) \<noteq> []"
    by (simp add: filter_empty_conv)
  then show ?thesis by (simp add: model_sparsity_def sparsity_of_def Let_def)
qed

lemma prune_layer_shape:
  assumes "prune_layer topk (Whole t) pt l = Inr l'"
  shows "same_shape l l'"
proof (cases "int (length (weight_mask l)) - t < 0
        \<or> int (length (weight_mask l)) - t \<ge> int (length (weight_mask l))")
  case True
  from prune_layer_skip [OF this, of topk pt] assms show ?thesis by simp
next
  case False
  then have lo: "0 \<le> int (length (weight_mask l)) - t"
    and hi: "int (length (weight_mask l)) - t < int (length (weight_mask l))" by simp_all
  from prune_layer_effect(1,2,6,7) [OF assms lo hi] show ?thesis by (simp add: same_shape_def)
qed

text \<open>
  What the round needs of the selection to return: the positions it gives are positions
  of the tensor. Every selection that meets \<open>is_topk\<close> for the requests within the size
  of the tensor gives such positions.
\<close>

lemma layer_prune_total:
  assumes wf: "\<forall>l \<in> set n. length (weight_mask l) = length (weight l)"
    and tg: "\<forall>l \<in> set n. \<exists>t. wbl (lname l) = Whole t"
    and tk: "\<And>vs k. k \<le> length vs \<Longrightarrow> is_topk False vs k (topk False vs k)"
  shows "\<exists>n'. layer_prune topk wbl pt n = Inr n' \<and> list_all2 same_shape n n'"
proof -
  have "\<exists>l'. prune_layer topk (wbl (lname l)) pt l = Inr l'" if l: "l \<in> set n" for l
  proof -
    from tg l obtain t where t: "wbl (lname l) = Whole t" by blast
    let ?k = "int (length (weight_mask l)) - t"
    show ?thesis
    proof (cases "?k < 0 \<or> ?k \<ge> int (length (weight_mask l))")
      case True
      from prune_layer_skip [OF this, of topk pt] t show ?thesis by simp
    next
      case False
      with wf l have "nat ?k \<le> length (map fabs (weight l))" by (simp add: nat_le_iff)
      from is_topkD(3) [OF tk [OF this]]
      have "\<forall>i \<in> set (topk False (map fabs (weight l)) (nat ?k)). i < length (weight l)"
        by simp
      with prune_layer_returns [of l topk t pt] wf l t show ?thesis by simp
    qed
  qed
  from mapE_all_Inr [of n "\<lambda>l. prune_layer topk (wbl (lname l)) pt l", OF this] obtain n' where
    m: "mapE (\<lambda>l. prune_layer topk (wbl (lname l)) pt l) n = Inr n'" by blast
  have "list_all2 same_shape n n'"
  proof (rule list_all2_all_nthI)
    show "length n = length n'" using mapE_Inr_length [OF m] by simp
    fix i assume i: "i < length n"
    then have "n ! i \<in> set n" by simp
    with tg obtain t where "wbl (lname (n ! i)) = Whole t" by blast
    with mapE_Inr_nth [OF m i] have "prune_layer topk (Whole t) pt (n ! i) = Inr (n' ! i)"
      by simp
    then show "same_shape (n ! i) (n' ! i)" by (rule prune_layer_shape)
  qed
  with m show ?thesis by (auto simp: layer_prune_def)
qed

lemma enforce_step_total:
  assumes d: "distinct (map lname g)"
    and wf: "\<forall>l \<in> set g. length (weight_mask l) = length (weight l)"
    and l: "l \<in> set g" and ps: "param_shape g ap"
  shows "\<exists>ap'. enforce_step (state_dict g) (lname l @ ''.weight'') ap = Inr ap'
           \<and> param_shape g ap'"
proof -
  let ?k = "lname l @ ''.weight''"
  let ?m = "BoolT (weight_mask l)"
  from map_of_state_dict [OF d l]
  have gm: "map_of (state_dict g) (?k @ ''_mask'') = Some ?m" by simp
  from ps l obtain p where p: "map_of ap ?k = Some p" and np: "numel p = length (weight l)"
    by (auto simp: param_shape_def)
  have kk: "?k \<noteq> ?k @ ''_mask''" by simp
  let ?ap1 = "AList.update (?k @ ''_mask'') ?m ap"
  let ?ap' = "AList.update ?k (zero_outside (weight_mask l) p) ?ap1"
  from wf l np have len: "length (weight_mask l) = numel p" by simp
  from gm p kk len have st: "enforce_step (state_dict g) ?k ap = Inr ?ap'"
    by (simp add: enforce_step_def Let_def update_conv')
  have nz: "numel (zero_outside (weight_mask l) p) = numel p"
    using len by (rule zero_outside_numel)
  have "param_shape g ?ap'"
    unfolding param_shape_def
  proof (intro conjI ballI)
    fix l' assume l': "l' \<in> set g"
    from ps l' obtain t where t: "map_of ap (lname l' @ ''.weight'') = Some t"
      and nt: "numel t = length (weight l')" by (auto simp: param_shape_def)
    show "\<exists>t. map_of ?ap' (lname l' @ ''.weight'') = Some t \<and> numel t = length (weight l')"
    proof (cases "lname l' @ ''.weight'' = ?k")
      case True
      with t p nt nz show ?thesis by (simp add: update_conv')
    next
      case False
      moreover have "lname l' @ ''.weight'' \<noteq> ?k @ ''_mask''"
        by (rule append_mask_neq) simp
      ultimately show ?thesis using t nt by (simp add: update_conv')
    qed
    from ps l' obtain b where b: "map_of ap (lname l' @ ''.bias'') = Some b"
      and nb: "numel b = length (bias l')" by (auto simp: param_shape_def)
    have "lname l' @ ''.bias'' \<noteq> ?k" by (rule key_neq)
    moreover have "lname l' @ ''.bias'' \<noteq> ?k @ ''_mask''"
      by (rule append_mask_neq) simp
    ultimately show "\<exists>t. map_of ?ap' (lname l' @ ''.bias'') = Some t
        \<and> numel t = length (bias l')"
      using b nb by (simp add: update_conv')
  next
    from gm have "?k @ ''_mask'' \<in> keys (state_dict g)" by (rule map_of_in_keys)
    moreover from p have "?k \<in> keys ap" by (rule map_of_in_keys)
    moreover from ps have "keys ap \<subseteq> keys (state_dict g)" by (simp add: param_shape_def)
    ultimately show "keys ?ap' \<subseteq> keys (state_dict g)" by (auto simp: keys_update)
  qed
  with st show ?thesis by blast
qed

subsection \<open>The whole round\<close>

lemma layer_of_name:
  assumes "map lname n' = map lname n" and "l \<in> set n"
  shows "\<exists>l' \<in> set n'. lname l' = lname l"
proof -
  from assms(2) have "lname l \<in> set (map lname n)" by simp
  with assms(1) have "lname l \<in> set (map lname n')" by simp
  then show ?thesis by auto
qed

lemma aggregation_round_returns:
  assumes ne: "g \<noteq> []"
    and d: "distinct (map lname g)"
    and wf: "\<forall>l \<in> set g. length (weight_mask l) = length (weight l)"
    and cl: "\<forall>c \<in> set clients. \<exists>cn. snd c = state_dict cn \<and> list_all2 same_shape g cn"
    and tg: "\<forall>l \<in> set g. \<exists>t. wbl (lname l) = Whole t"
    and nc: "clients \<noteq> []"
    and tk: "\<And>vs k. k \<le> length vs \<Longrightarrow> is_topk False vs k (topk False vs k)"
  shows "\<exists>g'. aggregation_round topk f32 bf16 a round_sp wbl g clients = Inr g'
           \<and> list_all2 same_shape g g'"
proof -
  let ?gp = "state_dict g"
  from aggregate_total [OF d wf cl, of bf16 a] obtain A where
    agg: "aggregate bf16 a ?gp clients = Inr A"
    and en: "\<forall>l \<in> set g.
          (\<exists>t. map_of (aggregated_params A) (lname l @ ''.weight'') = Some t
               \<and> numel t = length (weight l))
        \<and> (\<exists>t. map_of (aggregated_params A) (lname l @ ''.bias'') = Some t
               \<and> numel t = length (bias l))
        \<and> (\<exists>t. map_of (aggregated_params_for_mask A) (lname l @ ''.weight'') = Some t
               \<and> numel t = length (weight l))
        \<and> (\<exists>t. map_of (aggregated_params_for_mask A) (lname l @ ''.bias'') = Some t
               \<and> numel t = length (bias l))
        \<and> (\<exists>t. map_of (aggregated_params_for_mask A) (lname l @ ''.weight_mask'') = Some t
               \<and> numel t = length (weight l))"
    and kp: "keys (aggregated_params A) \<subseteq> keys ?gp"
    and kf: "keys (aggregated_params_for_mask A) \<subseteq> keys ?gp"
    by blast
  note mk = aggregate_mask_keys [OF agg]
  have "\<forall>l \<in> set g.
        (\<exists>t. map_of (aggregated_params_for_mask A) (lname l @ ''.weight'') = Some t
           \<and> numel t = length (weight l))
      \<and> (\<exists>t. map_of (aggregated_params_for_mask A) (lname l @ ''.bias'') = Some t
           \<and> numel t = length (bias l))
      \<and> (\<exists>t. map_of (aggregated_params_for_mask A) (lname l @ ''.weight_mask'') = Some t
           \<and> numel t = length (weight_mask l))"
    using en wf by simp
  from load_state_dict_total [OF kf this] obtain g5 where
    l5: "load_state_dict (aggregated_params_for_mask A) g = Inr g5"
    and s5: "list_all2 same_shape g g5" by blast
  note n5 = same_shape_names [OF s5]
  note wf5 = same_shape_masks [OF s5 wf]
  from s5 ne have "g5 \<noteq> []" by (auto dest: list_all2_lengthD)
  from model_sparsity_returns [OF this] obtain sp where sp: "model_sparsity f32 g5 = Inr sp"
    by blast
  have tg5: "\<forall>l \<in> set g5. \<exists>t. wbl (lname l) = Whole t"
  proof
    fix l assume "l \<in> set g5"
    from layer_of_name [OF n5 [symmetric] this] obtain l0 where "l0 \<in> set g" "lname l0 = lname l"
      by blast
    with tg show "\<exists>t. wbl (lname l) = Whole t" by metis
  qed
  have "\<exists>g6. (if flt sp round_sp then layer_prune topk wbl (prune_kind a) g5 else Inr g5)
        = Inr g6
      \<and> list_all2 same_shape g5 g6"
  proof (cases "flt sp round_sp")
    case True
    with layer_prune_total [where topk = topk and pt = "prune_kind a", OF wf5 tg5 tk]
    show ?thesis by simp
  next
    case False
    have "list_all2 same_shape g5 g5" by (simp add: list_all2_refl)
    with False show ?thesis by simp
  qed
  then obtain g6 where
    p6: "(if flt sp round_sp then layer_prune topk wbl (prune_kind a) g5 else Inr g5) = Inr g6"
    and s56: "list_all2 same_shape g5 g6" by blast
  from s5 s56 have s6: "list_all2 same_shape g g6"
    by (rule list_all2_trans [rotated]) (rule same_shape_trans)
  note n6 = same_shape_names [OF s6]
  note wf6 = same_shape_masks [OF s6 wf]
  from n6 d have d6: "distinct (map lname g6)" by simp
  note k6 = same_shape_keys [OF n6]
  have ps: "param_shape g6 (aggregated_params A)"
    unfolding param_shape_def
  proof (intro conjI ballI)
    fix l assume "l \<in> set g6"
    from partner_layer [OF s6 this] obtain l0 where l0: "l0 \<in> set g" "same_shape l0 l" by blast
    with en show "\<exists>t. map_of (aggregated_params A) (lname l @ ''.weight'') = Some t
        \<and> numel t = length (weight l)"
      and "\<exists>t. map_of (aggregated_params A) (lname l @ ''.bias'') = Some t
        \<and> numel t = length (bias l)"
      by (simp_all add: same_shape_def)
  next
    from kp k6 show "keys (aggregated_params A) \<subseteq> keys (state_dict g6)" by simp
  qed
  let ?ks = "map fst (aggregated_masks A)"
  have wk: "\<exists>l \<in> set g6. x = lname l @ ''.weight''" if "x \<in> set ?ks" for x
  proof -
    from that mk have x: "x \<in> keys ?gp" "\<not> endswith x ''_mask''" "needs_mask x"
      by (simp_all add: keys_def)
    from key_of_layer [OF x(1)] x(2,3) obtain l where "l \<in> set g" "x = lname l @ ''.weight''"
      by auto
    with layer_of_name [OF n6 this(1)] show ?thesis by metis
  qed
  have "\<exists>ap7. foldE (enforce_step (state_dict g6)) ?ks (aggregated_params A) = Inr ap7
      \<and> param_shape g6 ap7"
  proof (rule foldE_total [where P = "param_shape g6", OF ps])
    fix x t assume "x \<in> set ?ks" and t: "param_shape g6 t"
    from wk [OF this(1)] obtain l where l: "l \<in> set g6" "x = lname l @ ''.weight''" by blast
    from enforce_step_total [OF d6 wf6 l(1) t] l(2)
    show "\<exists>t'. enforce_step (state_dict g6) x t = Inr t' \<and> param_shape g6 t'" by simp
  qed
  then obtain ap7 where
    f: "foldE (enforce_step (state_dict g6)) ?ks (aggregated_params A) = Inr ap7"
    and ps7: "param_shape g6 ap7" by blast
  have ks: "\<forall>k \<in> set ?ks. \<not> endswith k ''_mask''"
    using mk by (auto simp: keys_def)
  have "\<forall>l \<in> set g6.
        (\<exists>t. map_of ap7 (lname l @ ''.weight'') = Some t \<and> numel t = length (weight l))
      \<and> (\<exists>t. map_of ap7 (lname l @ ''.bias'') = Some t \<and> numel t = length (bias l))
      \<and> (\<exists>t. map_of ap7 (lname l @ ''.weight_mask'') = Some t
             \<and> numel t = length (weight_mask l))"
  proof
    fix l assume l: "l \<in> set g6"
    let ?k = "lname l @ ''.weight''"
    from weight_key_in_state_dict [OF l] k6 have "?k \<in> keys ?gp" by simp
    with mk have "?k \<in> keys (aggregated_masks A)" by simp
    then have "?k \<in> set ?ks" by (simp add: keys_def)
    from enforce_fold [OF f ks this] obtain m where
      "map_of (state_dict g6) (?k @ ''_mask'') = Some (BoolT m)"
      "map_of ap7 (?k @ ''_mask'') = Some (BoolT m)"
      by (auto simp: enforced_def)
    with map_of_state_dict [OF d6 l]
    have "map_of ap7 (lname l @ ''.weight_mask'') = Some (BoolT (weight_mask l))" by simp
    with ps7 l show "(\<exists>t. map_of ap7 (lname l @ ''.weight'') = Some t
          \<and> numel t = length (weight l))
      \<and> (\<exists>t. map_of ap7 (lname l @ ''.bias'') = Some t \<and> numel t = length (bias l))
      \<and> (\<exists>t. map_of ap7 (lname l @ ''.weight_mask'') = Some t
             \<and> numel t = length (weight_mask l))"
      by (simp add: param_shape_def)
  qed
  moreover from ps7 have "keys ap7 \<subseteq> keys (state_dict g6)" by (simp add: param_shape_def)
  ultimately obtain g' where l7: "load_state_dict ap7 g6 = Inr g'"
    and s7: "list_all2 same_shape g6 g'"
    using load_state_dict_total [of ap7 g6] by blast
  from s6 s7 have "list_all2 same_shape g g'"
    by (rule list_all2_trans [rotated]) (rule same_shape_trans)
  moreover have "aggregation_round topk f32 bf16 a round_sp wbl g clients = Inr g'"
    using agg l5 sp p6 f l7 nc by (simp add: aggregation_round_def)
  ultimately show ?thesis by blast
qed

text \<open>
  The hypotheses are met by a model of one child with two clients, for every train size,
  every configuration and every round sparsity.
\<close>

lemma aggregation_round_returns_example:
  "\<exists>g'. aggregation_round topk_stable f32 bf16 a round_sp (\<lambda>name. Whole 3)
     (fc_net [Fin 1, Fin 1, Fin 1] [Fin 0] [True, True, True])
     [(n1, state_dict (fc_net [Fin 2, Fin 0, Fin 4] [Fin 1] [True, False, True])),
      (n2, state_dict (fc_net [Fin 3, Fin 5, Fin 0] [Fin 3] [True, True, False]))] = Inr g'
   \<and> length g' = 1"
proof -
  let ?g = "fc_net [Fin 1, Fin 1, Fin 1] [Fin 0] [True, True, True]"
  let ?c1 = "fc_net [Fin 2, Fin 0, Fin 4] [Fin 1] [True, False, True]"
  let ?c2 = "fc_net [Fin 3, Fin 5, Fin 0] [Fin 3] [True, True, False]"
  let ?cs = "[(n1, state_dict ?c1), (n2, state_dict ?c2)]"
  have "list_all2 same_shape ?g ?c1" "list_all2 same_shape ?g ?c2"
    by (simp_all add: fc_net_def same_shape_def)
  then have cl: "\<forall>c \<in> set ?cs. \<exists>cn. snd c = state_dict cn \<and> list_all2 same_shape ?g cn"
    by auto
  have ne: "?g \<noteq> []" and d: "distinct (map lname ?g)"
    and wf: "\<forall>l \<in> set ?g. length (weight_mask l) = length (weight l)"
    and tg: "\<forall>l \<in> set ?g. \<exists>t. (\<lambda>name. Whole 3) (lname l) = Whole t"
    and nc: "?cs \<noteq> []"
    by (simp_all add: fc_net_def)
  from aggregation_round_returns [where topk = topk_stable and ?f32.0 = f32
      and ?bf16.0 = bf16 and a = a and round_sp = round_sp,
      OF ne d wf cl tg nc topk_stable_is_topk]
  obtain g' where r: "aggregation_round topk_stable f32 bf16 a round_sp (\<lambda>name. Whole 3) ?g
      ?cs = Inr g'"
    and s: "list_all2 same_shape ?g g'" by blast
  from s have "length g' = 1" by (auto dest: list_all2_lengthD simp: fc_net_def)
  with r show ?thesis by blast
qed

end
